theory Spec2Isabelle
  imports Main
begin

section \<open>JavaScript values and objects\<close>

text \<open>
  The media records of the plugin are plain JavaScript objects: an ordered collection of
  own properties, each a string key with a value. The values that occur are the JSON
  shaped ones. Numbers are only stored and copied by the code under study (never
  computed with), so the integers stand for them.
\<close>

datatype jsval =
    JUndefined
  | JNull
  | JBool bool
  | JNum int
  | JStr string
  | JArr "jsval list"
  | JObj "(string \<times> jsval) list"

text \<open>
  An object is represented by its own properties in enumeration order (the order of
  \<^verbatim>\<open>Object.keys\<close> and of \<^verbatim>\<open>for ... in\<close>): array-index keys first, in
  ascending numeric order, then the other keys in the order of their creation.
  Every object inherits from \<^verbatim>\<open>Object.prototype\<close>, as an object literal and an
  object of parsed JSON do.
\<close>

type_synonym obj = "(string \<times> jsval) list"

definition Object_keys :: "obj \<Rightarrow> string list" where
  "Object_keys ob = map fst ob"

definition hasOwnProperty :: "obj \<Rightarrow> string \<Rightarrow> bool" where
  "hasOwnProperty ob k = (map_of ob k \<noteq> None)"

text \<open>Reading a property that is absent yields \<^verbatim>\<open>undefined\<close>.\<close>

definition get_prop :: "obj \<Rightarrow> string \<Rightarrow> jsval" where
  "get_prop ob k = (case map_of ob k of None \<Rightarrow> JUndefined | Some v \<Rightarrow> v)"

subsection \<open>Decimal numerals and array indices\<close>

definition digit_char :: "nat \<Rightarrow> char" where
  "digit_char d = ''0123456789'' ! (d mod 10)"

fun string_of_nat :: "nat \<Rightarrow> string" where
  "string_of_nat n =
     (if n < 10 then [digit_char n] else string_of_nat (n div 10) @ [digit_char (n mod 10)])"

declare string_of_nat.simps [simp del]

definition digit_value :: "char \<Rightarrow> nat option" where
  "digit_value c =
     map_of [(CHR ''0'', 0), (CHR ''1'', 1), (CHR ''2'', 2), (CHR ''3'', 3), (CHR ''4'', 4),
             (CHR ''5'', 5), (CHR ''6'', 6), (CHR ''7'', 7), (CHR ''8'', 8), (CHR ''9'', 9)] c"

fun digits_value :: "nat \<Rightarrow> string \<Rightarrow> nat option" where
  "digits_value acc [] = Some acc"
| "digits_value acc (c # cs) =
     (case digit_value c of None \<Rightarrow> None | Some d \<Rightarrow> digits_value (10 * acc + d) cs)"

text \<open>
  A key is an array index when it is the canonical decimal numeral (no leading zero) of a
  number below \<open>2^32 - 1\<close>.
\<close>

definition array_index :: "string \<Rightarrow> nat option" where
  "array_index k =
     (case k of
        [] \<Rightarrow> None
      | c # cs \<Rightarrow>
          if c = CHR ''0'' \<and> cs \<noteq> [] then None
          else (case digits_value 0 k of
                  None \<Rightarrow> None
                | Some n \<Rightarrow> if n < 4294967295 then Some n else None))"

subsection \<open>Writing and deleting properties\<close>

text \<open>
  The assignment \<^verbatim>\<open>o[k] = v\<close>: an existing property keeps its place; a new array
  index is placed among the array indices; any other new key goes last.
\<close>

fun replace_prop :: "string \<Rightarrow> jsval \<Rightarrow> obj \<Rightarrow> obj" where
  "replace_prop k v [] = []"
| "replace_prop k v ((k', v') # ob) =
     (if k' = k then (k, v) # ob else (k', v') # replace_prop k v ob)"

fun insert_index :: "nat \<Rightarrow> string \<Rightarrow> jsval \<Rightarrow> obj \<Rightarrow> obj" where
  "insert_index i k v [] = [(k, v)]"
| "insert_index i k v ((k', v') # ob) =
     (case array_index k' of
        None \<Rightarrow> (k, v) # (k', v') # ob
      | Some j \<Rightarrow> if j < i then (k', v') # insert_index i k v ob else (k, v) # (k', v') # ob)"

definition set_prop :: "string \<Rightarrow> jsval \<Rightarrow> obj \<Rightarrow> obj" where
  "set_prop k v ob =
     (if hasOwnProperty ob k then replace_prop k v ob
      else (case array_index k of
              None \<Rightarrow> ob @ [(k, v)]
            | Some i \<Rightarrow> insert_index i k v ob))"

text \<open>The statement \<^verbatim>\<open>delete o[k]\<close>.\<close>

definition delete_prop :: "string \<Rightarrow> obj \<Rightarrow> obj" where
  "delete_prop k ob = filter (\<lambda>kv. fst kv \<noteq> k) ob"

text \<open>
  The own enumerable properties that a spread \<^verbatim>\<open>{...x}\<close> copies out of a value: the
  properties of an object, the elements of an array and the characters of a string under
  their indices, nothing for the other primitives.
\<close>

fun indexed :: "nat \<Rightarrow> jsval list \<Rightarrow> obj" where
  "indexed i [] = []"
| "indexed i (v # vs) = (string_of_nat i, v) # indexed (Suc i) vs"

fun own_entries :: "jsval \<Rightarrow> obj" where
  "own_entries (JObj ob) = ob"
| "own_entries (JArr vs) = indexed 0 vs"
| "own_entries (JStr s) = indexed 0 (map (\<lambda>c. JStr [c]) s)"
| "own_entries _ = []"

text \<open>
  An object literal with spreads copies the properties one by one, in order, into the
  object under construction.
\<close>

definition assign_all :: "obj \<Rightarrow> obj \<Rightarrow> obj" where
  "assign_all entries target = fold (\<lambda>kv acc. set_prop (fst kv) (snd kv) acc) entries target"

subsection \<open>Strings out of values\<close>

text \<open>\<^verbatim>\<open>Array.prototype.join\<close> on an array of strings.\<close>

fun Array_join :: "string \<Rightarrow> string list \<Rightarrow> string" where
  "Array_join sep [] = []"
| "Array_join sep [x] = x"
| "Array_join sep (x # y # ys) = x @ sep @ Array_join sep (y # ys)"

definition string_of_int :: "int \<Rightarrow> string" where
  "string_of_int i = (if i < 0 then CHR ''-'' # string_of_nat (nat (- i)) else string_of_nat (nat i))"

text \<open>
  The conversion that string concatenation with \<^verbatim>\<open>+\<close> applies to an operand. An
  array is joined with commas, \<^verbatim>\<open>undefined\<close> and \<^verbatim>\<open>null\<close> elements giving the
  empty string. An object is converted by the \<^verbatim>\<open>toString\<close> it inherits.
\<close>

fun ToString :: "jsval \<Rightarrow> string" where
  "ToString JUndefined = ''undefined''"
| "ToString JNull = ''null''"
| "ToString (JBool b) = (if b then ''true'' else ''false'')"
| "ToString (JNum i) = string_of_int i"
| "ToString (JStr s) = s"
| "ToString (JArr vs) =
     Array_join '',''
       (map (\<lambda>v. if v = JUndefined \<or> v = JNull then [] else ToString v) vs)"
| "ToString (JObj ob) = ''[object Object]''"

subsection \<open>Exceptions of the language\<close>

datatype js_error = TypeError | RangeError

definition nullish :: "jsval \<Rightarrow> bool" where
  "nullish v = (v = JUndefined \<or> v = JNull)"

text \<open>
  The method call \<^verbatim>\<open>o.hasOwnProperty(k)\<close>. The method is looked up on the object as
  any property is: an own property named \<^verbatim>\<open>hasOwnProperty\<close> comes before the method
  inherited from \<^verbatim>\<open>Object.prototype\<close>. None of the values above is a function, so
  the call of such an own property throws \<^verbatim>\<open>TypeError\<close>.
\<close>

definition call_hasOwnProperty :: "obj \<Rightarrow> string \<Rightarrow> js_error + bool" where
  "call_hasOwnProperty ob k =
     (if hasOwnProperty ob ''hasOwnProperty'' then Inl TypeError
      else Inr (hasOwnProperty ob k))"

text \<open>
  Whether the conversion of a value to a string throws, in a template
  \<^verbatim>\<open>`${v}`\<close> or in the method call \<^verbatim>\<open>v.toString()\<close>. The conversion of an object
  calls its \<^verbatim>\<open>toString\<close>; an own property of that name stands before the inherited
  method and cannot be called. The conversion of an array converts its elements,
  \<^verbatim>\<open>undefined\<close> and \<^verbatim>\<open>null\<close> apart.
\<close>

fun ToString_throws :: "jsval \<Rightarrow> bool" where
  "ToString_throws (JObj ob) = hasOwnProperty ob ''toString''"
| "ToString_throws (JArr vs) = list_ex ToString_throws vs"
| "ToString_throws _ = False"

text \<open>
  The method call \<^verbatim>\<open>v.toString()\<close> throws, besides, on \<^verbatim>\<open>undefined\<close> and
  \<^verbatim>\<open>null\<close>, which have no members.
\<close>

definition toString_call_throws :: "jsval \<Rightarrow> bool" where
  "toString_call_throws v = (nullish v \<or> ToString_throws v)"


section \<open>The record model\<close>

subsection \<open>Media kinds\<close>

text \<open>
  Modelled from the spec: the enumeration \<^verbatim>\<open>MediaType\<close> of \<^verbatim>\<open>utils/MediaType\<close> is
  not among the sources. The spec lists the eight media kinds (Movie, Series, Game, Book,
  ComicManga, MusicRelease, BoardGame, Wiki); the string each one stands for at run time
  is read off its uses (\<^verbatim>\<open>typeMappings\<close> in \<^verbatim>\<open>BangumiAPI.ts\<close> and the names of the
  settings). No result below depends on the spelling of these strings.
\<close>

datatype MediaType = Movie | Series | ComicManga | Game | BoardGame | MusicRelease | Book | Wiki

text \<open>
  Modelled from the spec: the string a member of the absent enumeration \<^verbatim>\<open>MediaType\<close>
  stands for.
\<close>

fun MediaType_value :: "MediaType \<Rightarrow> string" where
  "MediaType_value Movie = ''movie''"
| "MediaType_value Series = ''series''"
| "MediaType_value ComicManga = ''comicManga''"
| "MediaType_value Game = ''game''"
| "MediaType_value BoardGame = ''boardgame''"
| "MediaType_value MusicRelease = ''musicRelease''"
| "MediaType_value Book = ''book''"
| "MediaType_value Wiki = ''wiki''"

subsection \<open>Schema migration\<close>

text \<open>
  Modelled from the spec: the function \<^verbatim>\<open>migrateObject\<close> of \<^verbatim>\<open>utils/Utils\<close> is not
  among the sources; only its calls \<^verbatim>\<open>migrateObject(target, source, reference)\<close> are.
  The spec (section 4.2) says: every field present in both source and reference retains
  the source's value if type-compatible, else the reference's default; fields present
  only in the reference receive the reference's default; fields present only in the
  source are dropped. The spec does not say when a value is type-compatible, so that
  test is the parameter \<open>tcompat\<close> (source value first, reference default second), and
  what is proved below holds for every such test.

  The value of one field after the migration:
\<close>

definition migrated_value :: "(jsval \<Rightarrow> jsval \<Rightarrow> bool) \<Rightarrow> obj \<Rightarrow> string \<Rightarrow> jsval \<Rightarrow> jsval" where
  "migrated_value tcompat oldData k dflt =
     (if hasOwnProperty oldData k \<and> tcompat (get_prop oldData k) dflt
      then get_prop oldData k
      else dflt)"

text \<open>
  Modelled from the spec: \<^verbatim>\<open>migrateObject\<close>, absent from the sources. It goes through
  the fields of the reference (spec, section 9: the reference's field list is the
  iteration source of truth) and writes each migrated value into the target. The callers
  ignore the result and go on using the target, so the function updates its target in
  place; the model returns the target's new properties. Both callers pass the same object
  as target and as reference. Each step reads the reference only at the key it is about
  to write, so reading the reference as it was at the call gives the same values.
\<close>

definition migrateObject :: "(jsval \<Rightarrow> jsval \<Rightarrow> bool) \<Rightarrow> obj \<Rightarrow> obj \<Rightarrow> obj \<Rightarrow> obj" where
  "migrateObject tcompat object oldData defaultData =
     fold (\<lambda>k acc. set_prop k (migrated_value tcompat oldData k (get_prop defaultData k)) acc)
       (Object_keys defaultData) object"

text \<open>
  One reading of "type-compatible", used to run the model on concrete inputs: the two
  values are of the same kind (\<^verbatim>\<open>typeof\<close>, with \<^verbatim>\<open>null\<close> and arrays told apart).
\<close>

datatype jskind = KUndefined | KNull | KBoolean | KNumber | KString | KArray | KObject

fun kind_of :: "jsval \<Rightarrow> jskind" where
  "kind_of JUndefined = KUndefined"
| "kind_of JNull = KNull"
| "kind_of (JBool b) = KBoolean"
| "kind_of (JNum i) = KNumber"
| "kind_of (JStr s) = KString"
| "kind_of (JArr vs) = KArray"
| "kind_of (JObj ob) = KObject"

definition sameKind :: "jsval \<Rightarrow> jsval \<Rightarrow> bool" where
  "sameKind v d = (kind_of v = kind_of d)"

subsection \<open>The base class \<^verbatim>\<open>MediaTypeModel\<close>\<close>

text \<open>The protected constructor, run on the fresh object.\<close>

definition MediaTypeModel_constructor :: "obj \<Rightarrow> obj" where
  "MediaTypeModel_constructor this =
     assign_all
       [(''type'', JStr []),
        (''subType'', JStr []),
        (''title'', JStr []),
        (''englishTitle'', JStr []),
        (''year'', JStr []),
        (''dataSource'', JStr []),
        (''url'', JStr []),
        (''id'', JStr []),
        (''apiTags'', JUndefined),
        (''genres'', JUndefined),
        (''userData'', JObj []),
        (''personalRating'', JUndefined),
        (''personalStatus'', JUndefined),
        (''personalTags'', JUndefined)] this"

text \<open>
  \<^verbatim>\<open>structuredClone\<close> builds a deep copy. On values a deep copy is the value itself;
  what the copy shares with the original is studied on the store below.
\<close>

definition structuredClone :: "obj \<Rightarrow> obj" where
  "structuredClone ob = ob"

definition getWithOutUserData :: "obj \<Rightarrow> obj" where
  "getWithOutUserData this = delete_prop ''userData'' (structuredClone this)"

text \<open>
  \<^verbatim>\<open>toMetaDataObject\<close>; the abstract method \<^verbatim>\<open>getTags\<close> of the instance is the
  parameter \<open>getTags\<close>.
\<close>

definition toMetaDataObject :: "string list \<Rightarrow> obj \<Rightarrow> obj" where
  "toMetaDataObject getTags this =
     assign_all [(''tags'', JStr (Array_join ''/'' getTags))]
       (assign_all (own_entries (get_prop this ''userData''))
          (assign_all (getWithOutUserData this) []))"

subsection \<open>The variant \<^verbatim>\<open>GameModel\<close>\<close>

text \<open>
  The file \<^verbatim>\<open>models/GameModel.ts\<close> holds the class twice. The model follows the first
  text; the second declares more fields (\<^verbatim>\<open>composer\<close>, \<^verbatim>\<open>director\<close> and others in
  the place of \<^verbatim>\<open>music\<close>) and has the same constructor body after the defaults and
  the same methods.

  The object literal the constructor stores in \<^verbatim>\<open>this.userData\<close>, and the fields it
  sets before it migrates the input.
\<close>

definition GameModel_userData_defaults :: obj where
  "GameModel_userData_defaults =
     [(''played'', JBool False),
      (''personalRating'', JNum 0),
      (''personalStatus'', JUndefined),
      (''personalTags'', JUndefined)]"

definition GameModel_defaults :: obj where
  "GameModel_defaults =
     assign_all
       [(''tags'', JArr []),
        (''genres'', JArr []),
        (''onlineRating'', JNum 0),
        (''platforms'', JArr []),
        (''developers'', JArr []),
        (''publishers'', JArr []),
        (''music'', JArr []),
        (''image'', JStr []),
        (''website'', JStr []),
        (''description'', JStr []),
        (''released'', JBool False),
        (''releaseDate'', JStr []),
        (''apiTags'', JArr []),
        (''userData'', JObj GameModel_userData_defaults)]
       (MediaTypeModel_constructor [])"

definition GameModel_getMediaType :: MediaType where
  "GameModel_getMediaType = Game"

text \<open>
  The constant \<^verbatim>\<open>mediaDbTag\<close> of \<^verbatim>\<open>utils/Utils\<close> is not among the sources; it is a
  parameter.
\<close>

definition GameModel_getTags :: "string \<Rightarrow> string list" where
  "GameModel_getTags mediaDbTag = [mediaDbTag, ''game'']"

definition GameModel_getSummary :: "obj \<Rightarrow> string" where
  "GameModel_getSummary this =
     ToString (get_prop this ''englishTitle'') @ '' ('' @ ToString (get_prop this ''year'') @ '')''"

text \<open>
  The constructor, over any function \<open>migrate\<close> in the place of \<^verbatim>\<open>migrateObject\<close>
  (target, source, reference; the result is the target after the call). The second
  migration works on the object held in \<^verbatim>\<open>this.userData\<close>, in place; where the
  first migration has left something else than an object there, there is no field to go
  through.

  The guard of the second migration is the method call
  \<^verbatim>\<open>obj.hasOwnProperty('userData')\<close> on the input, which throws on an input with an
  own property named \<^verbatim>\<open>hasOwnProperty\<close>; then no instance is built.
\<close>

definition migrate_userData :: "(obj \<Rightarrow> obj \<Rightarrow> obj \<Rightarrow> obj) \<Rightarrow> obj \<Rightarrow> jsval \<Rightarrow> jsval" where
  "migrate_userData migrate ob userData =
     (case userData of
        JObj ud \<Rightarrow> JObj (migrate ud ob ud)
      | _ \<Rightarrow> userData)"

definition GameModel_constructor_with ::
    "(obj \<Rightarrow> obj \<Rightarrow> obj \<Rightarrow> obj) \<Rightarrow> obj \<Rightarrow> js_error + obj" where
  "GameModel_constructor_with migrate ob =
     (let this1 = GameModel_defaults;
          this2 = migrate this1 ob this1
      in case call_hasOwnProperty ob ''userData'' of
           Inl e \<Rightarrow> Inl e
         | Inr hasUserData \<Rightarrow>
             (let this3 = (if \<not> hasUserData
                           then set_prop ''userData''
                                  (migrate_userData migrate ob (get_prop this2 ''userData'')) this2
                           else this2)
              in Inr (set_prop ''type'' (JStr (MediaType_value GameModel_getMediaType)) this3)))"

text \<open>The constructor with the migration of the spec.\<close>

definition GameModel_constructor :: "(jsval \<Rightarrow> jsval \<Rightarrow> bool) \<Rightarrow> obj \<Rightarrow> js_error + obj" where
  "GameModel_constructor tcompat ob = GameModel_constructor_with (migrateObject tcompat) ob"

definition GameModel_toMetaDataObject :: "string \<Rightarrow> obj \<Rightarrow> obj" where
  "GameModel_toMetaDataObject mediaDbTag this = toMetaDataObject (GameModel_getTags mediaDbTag) this"


section \<open>Default property mappings\<close>

text \<open>
  Modelled from the spec: the classes \<^verbatim>\<open>PropertyMapping\<close> and
  \<^verbatim>\<open>PropertyMappingModel\<close> and the enumeration \<^verbatim>\<open>PropertyMappingOption\<close> of
  \<^verbatim>\<open>settings/PropertyMapping\<close> are not among the sources. The spec (section 3) gives
  their fields: a mapping is \<^verbatim>\<open>{ key, newKey, mapping: Default|Remap|Remove, locked }\<close>,
  a model owns \<^verbatim>\<open>type\<close> and an ordered sequence of mappings, which a fresh model has
  none of (\<^verbatim>\<open>getDefaultSettings\<close> pushes onto it).
\<close>

datatype PropertyMappingOption = Default | Remap | Remove

record PropertyMapping =
  key :: string
  newKey :: string
  mapping :: PropertyMappingOption
  locked :: bool

record PropertyMappingModel =
  type :: MediaType
  properties :: "PropertyMapping list"

text \<open>
  Modelled from the spec: the constructors of the two absent classes, as
  \<^verbatim>\<open>getDefaultSettings\<close> calls them.
\<close>

definition new_PropertyMapping ::
    "string \<Rightarrow> string \<Rightarrow> PropertyMappingOption \<Rightarrow> bool \<Rightarrow> PropertyMapping" where
  "new_PropertyMapping k nk opt l = \<lparr>key = k, newKey = nk, mapping = opt, locked = l\<rparr>"

definition new_PropertyMappingModel :: "MediaType \<Rightarrow> PropertyMappingModel" where
  "new_PropertyMappingModel t = \<lparr>type = t, properties = []\<rparr>"

definition lockedPropertyMappings :: "string list" where
  "lockedPropertyMappings = [''type'', ''id'', ''dataSource'']"

text \<open>
  The settings object: the one field \<^verbatim>\<open>getDefaultSettings\<close> writes; the other fields
  of \<^verbatim>\<open>DEFAULT_SETTINGS\<close> are the extension of the record.
\<close>

record MediaDbPluginSettings =
  propertyMappingModels :: "PropertyMappingModel list"

text \<open>The inner loop: one mapping pushed for each key of the metadata object.\<close>

fun push_mappings :: "string list \<Rightarrow> PropertyMappingModel \<Rightarrow> PropertyMappingModel" where
  "push_mappings [] propertyMappingModel = propertyMappingModel"
| "push_mappings (k # ks) propertyMappingModel =
     push_mappings ks
       (propertyMappingModel\<lparr>properties := properties propertyMappingModel @
          [new_PropertyMapping k [] Default (k \<in> set lockedPropertyMappings)]\<rparr>)"

text \<open>
  The outer loop. The list \<^verbatim>\<open>MEDIA_TYPES\<close> and the factory
  \<^verbatim>\<open>createMediaTypeModelFromMediaType\<close> of \<^verbatim>\<open>utils/MediaTypeManager\<close> are not
  among the sources; both are parameters. The factory is called with the empty object
  and returns an instance: what its \<^verbatim>\<open>getTags\<close> returns, and its properties.
\<close>

fun build_models ::
    "(obj \<Rightarrow> MediaType \<Rightarrow> string list \<times> obj) \<Rightarrow> MediaType list \<Rightarrow>
     PropertyMappingModel list \<Rightarrow> PropertyMappingModel list" where
  "build_models createModel [] models = models"
| "build_models createModel (mediaType # rest) models =
     (let model = createModel [] mediaType;
          metadataObj = toMetaDataObject (fst model) (snd model);
          propertyMappingModel =
            push_mappings (Object_keys metadataObj) (new_PropertyMappingModel mediaType)
      in build_models createModel rest (models @ [propertyMappingModel]))"

definition getDefaultSettings ::
    "'a MediaDbPluginSettings_scheme \<Rightarrow> (obj \<Rightarrow> MediaType \<Rightarrow> string list \<times> obj) \<Rightarrow>
     MediaType list \<Rightarrow> 'a MediaDbPluginSettings_scheme" where
  "getDefaultSettings DEFAULT_SETTINGS createModel MEDIA_TYPES =
     DEFAULT_SETTINGS\<lparr>propertyMappingModels := build_models createModel MEDIA_TYPES []\<rparr>"

text \<open>
  What the spec (section 4.3) says of the default mapping of a key, in its words: mapping
  \<^verbatim>\<open>Default\<close>, an empty \<^verbatim>\<open>newKey\<close>, and locked if and only if the key is one of
  \<^verbatim>\<open>type\<close>, \<^verbatim>\<open>id\<close>, \<^verbatim>\<open>dataSource\<close>.
\<close>

definition spec_default_mapping :: "string \<Rightarrow> PropertyMapping" where
  "spec_default_mapping k =
     \<lparr>key = k, newKey = [], mapping = Default,
      locked = (k = ''type'' \<or> k = ''id'' \<or> k = ''dataSource'')\<rparr>"


section \<open>Selecting the variant in \<^verbatim>\<open>BangumiAPI.getById\<close>\<close>

text \<open>
  Two versions of the class are among the sources. Both fetch a subject over the network
  and build a model from the answer. The model below starts from the answer (the HTTP
  status and the parsed body) and follows the code up to the call of the constructor,
  through every statement on the way that can throw. Its result is the variant whose
  constructor is called, or the exception. Of the fields that the code extracts from the
  body on the way, the model keeps whether their extraction throws: their values go into
  the fields of the instance, which the result does not carry.

  An exception is a value of the type \<open>api_error\<close>: one of the errors that the code
  throws itself, or an exception of the language. (The later version catches every
  exception at its end and throws a new \<^verbatim>\<open>Error\<close> that quotes its message; the value
  stands for the exception caught.)
\<close>

datatype api_error =
    StatusCode int
  | InvalidSubjectData
  | MusicNotSupported
  | RealNotSupported
  | UnknownMediaType jsval
  | UnknownMediaTypeForId
  | UnsupportedMediaType MediaType
  | Thrown js_error

text \<open>
  Reading a member of a value; a primitive and an array have none of the members read
  here. Reading a member of \<^verbatim>\<open>null\<close> or \<^verbatim>\<open>undefined\<close> throws: where the code
  reads a member of a value that it has not tested, the model tests \<open>nullish\<close> first.
\<close>

definition member_of :: "jsval \<Rightarrow> string \<Rightarrow> jsval" where
  "member_of v k = (case v of JObj ob \<Rightarrow> get_prop ob k | _ \<Rightarrow> JUndefined)"

fun truthy :: "jsval \<Rightarrow> bool" where
  "truthy JUndefined = False"
| "truthy JNull = False"
| "truthy (JBool b) = b"
| "truthy (JNum i) = (i \<noteq> 0)"
| "truthy (JStr s) = (s \<noteq> [])"
| "truthy (JArr vs) = True"
| "truthy (JObj ob) = True"

fun is_string :: "jsval \<Rightarrow> bool" where
  "is_string (JStr s) = True"
| "is_string _ = False"

text \<open>
  Modelled from the spec: the constructors of the variants other than \<^verbatim>\<open>GameModel\<close>
  (\<^verbatim>\<open>MovieModel\<close>, \<^verbatim>\<open>SeriesModel\<close>, \<^verbatim>\<open>ComicMangaModel\<close>, \<^verbatim>\<open>BookModel\<close>,
  \<^verbatim>\<open>MusicReleaseModel\<close>) and the date formatter of the plugin are not among the
  sources. The spec (sections 4.1 and 7) has construction yield a fully initialised
  instance from any partial set of fields, and no operation of the core fail; so a
  constructor that \<^verbatim>\<open>getById\<close> calls, and the formatter, are taken to return. (Every
  constructor is given an object literal written in \<^verbatim>\<open>getById\<close>, which has no
  property named \<^verbatim>\<open>hasOwnProperty\<close>: the constructor of \<^verbatim>\<open>GameModel\<close> returns on
  it.)
\<close>

definition new_model :: "MediaType \<Rightarrow> api_error + MediaType" where
  "new_model t = Inr t"

subsection \<open>The version of \<^verbatim>\<open>src/api/apis/BangumiAPI.ts\<close>\<close>

text \<open>
  The \<^verbatim>\<open>switch (result.type)\<close>. Reading \<^verbatim>\<open>result.type\<close> throws when the body is
  \<^verbatim>\<open>null\<close>; \<^verbatim>\<open>case\<close> compares with strict equality; the message of the error of the
  \<^verbatim>\<open>default\<close> branch is a template with \<^verbatim>\<open>${result.type}\<close> in it, whose conversion
  to a string comes before the error is made.
\<close>

definition bangumi_type :: "jsval \<Rightarrow> api_error + string" where
  "bangumi_type result =
     (if nullish result then Inl (Thrown TypeError)
      else
        (let t = member_of result ''type'' in
         if t = JNum 1 then Inr ''comicManga''
         else if t = JNum 2 then
           Inr (if member_of result ''category'' = JNum 2 then ''movie'' else ''series'')
         else if t = JNum 3 then Inl MusicNotSupported
         else if t = JNum 4 then Inr ''game''
         else if t = JNum 6 then Inl RealNotSupported
         else if ToString_throws t then Inl (Thrown TypeError)
         else Inl (UnknownMediaType t)))"

text \<open>
  \<^verbatim>\<open>result.air_date ? result.air_date.substring(0, 4) : ''\<close>: only a string has the
  method \<^verbatim>\<open>substring\<close>.
\<close>

definition year_throws :: "jsval \<Rightarrow> bool" where
  "year_throws air_date = (truthy air_date \<and> \<not> is_string air_date)"

text \<open>
  \<^verbatim>\<open>x ? x.map((tag) => tag.name) : []\<close>, for the tags and for the characters: only an
  array has the method \<^verbatim>\<open>map\<close>, and the callback reads a member of each element.
\<close>

definition names_throw :: "jsval \<Rightarrow> bool" where
  "names_throw x =
     (truthy x \<and> (case x of JArr vs \<Rightarrow> list_ex nullish vs | _ \<Rightarrow> True))"

text \<open>
  \<^verbatim>\<open>result.staff ? this.extractStaff(result.staff, role) : []\<close>. The helper returns
  the empty list for what is not an array; on an array, its filter reads
  \<^verbatim>\<open>person.role\<close> of each element and, where that is true, calls
  \<^verbatim>\<open>person.role.includes(role)\<close>, a method that strings and arrays have. The role
  asked for plays no part in whether the call throws.
\<close>

definition person_throws :: "jsval \<Rightarrow> bool" where
  "person_throws person =
     (nullish person
      \<or> (let role = member_of person ''role'' in
          truthy role \<and> (case role of JStr s \<Rightarrow> False | JArr vs \<Rightarrow> False | _ \<Rightarrow> True)))"

definition extractStaff_throws :: "jsval \<Rightarrow> bool" where
  "extractStaff_throws staff = (case staff of JArr persons \<Rightarrow> list_ex person_throws persons | _ \<Rightarrow> False)"

text \<open>
  The chain of \<^verbatim>\<open>if (type === ...)\<close> that returns the model, and the final throw. The
  object literal given to a constructor is evaluated first, property by property: each
  starts with \<^verbatim>\<open>result.id.toString()\<close>, then come the staff and the characters where
  the variant has them.
\<close>

definition select_model :: "string \<Rightarrow> jsval \<Rightarrow> api_error + MediaType" where
  "select_model t result =
     (let id_throws = toString_call_throws (member_of result ''id'');
          staff_throws = extractStaff_throws (member_of result ''staff'');
          crt_throws = names_throw (member_of result ''crt'')
      in if t = ''movie'' then
           (if id_throws \<or> staff_throws \<or> crt_throws then Inl (Thrown TypeError)
            else new_model Movie)
         else if t = ''series'' then
           (if id_throws \<or> staff_throws \<or> crt_throws then Inl (Thrown TypeError)
            else new_model Series)
         else if t = ''comicManga'' then
           (if id_throws \<or> staff_throws then Inl (Thrown TypeError)
            else new_model ComicManga)
         else if t = ''game'' then
           (if id_throws then Inl (Thrown TypeError)
            else new_model Game)
         else Inl UnknownMediaTypeForId)"

definition getById :: "int \<Rightarrow> jsval \<Rightarrow> api_error + MediaType" where
  "getById status result =
     (if status \<noteq> 200 then Inl (StatusCode status)
      else (case bangumi_type result of
              Inl e \<Rightarrow> Inl e
            | Inr t \<Rightarrow>
                if year_throws (member_of result ''air_date'')
                   \<or> names_throw (member_of result ''tags'')
                then Inl (Thrown TypeError)
                else select_model t result))"

subsection \<open>The later version of the class\<close>

text \<open>
  The platform names the code compares with, as the bytes of their UTF-8 encoding.
\<close>

definition zh_manga :: string where \<comment> \<open>U+6F2B U+753B\<close>
  "zh_manga = [CHR 0xE6, CHR 0xBC, CHR 0xAB, CHR 0xE7, CHR 0x94, CHR 0xBB]"

definition zh_novel :: string where \<comment> \<open>U+5C0F U+8BF4\<close>
  "zh_novel = [CHR 0xE5, CHR 0xB0, CHR 0x8F, CHR 0xE8, CHR 0xAF, CHR 0xB4]"

definition zh_artbook :: string where \<comment> \<open>U+753B U+96C6\<close>
  "zh_artbook = [CHR 0xE7, CHR 0x94, CHR 0xBB, CHR 0xE9, CHR 0x9B, CHR 0x86]"

definition zh_picturebook :: string where \<comment> \<open>U+7ED8 U+672C\<close>
  "zh_picturebook = [CHR 0xE7, CHR 0xBB, CHR 0x98, CHR 0xE6, CHR 0x9C, CHR 0xAC]"

definition zh_guidebook :: string where \<comment> \<open>U+516C U+5F0F U+4E66\<close>
  "zh_guidebook = [CHR 0xE5, CHR 0x85, CHR 0xAC, CHR 0xE5, CHR 0xBC, CHR 0x8F, CHR 0xE4, CHR 0xB9, CHR 0xA6]"

definition zh_photobook :: string where \<comment> \<open>U+5199 U+771F\<close>
  "zh_photobook = [CHR 0xE5, CHR 0x86, CHR 0x99, CHR 0xE7, CHR 0x9C, CHR 0x9F]"

definition zh_theatrical :: string where \<comment> \<open>U+5267 U+573A U+7248\<close>
  "zh_theatrical = [CHR 0xE5, CHR 0x89, CHR 0xA7, CHR 0xE5, CHR 0x9C, CHR 0xBA, CHR 0xE7, CHR 0x89, CHR 0x88]"

definition zh_motioncomic :: string where \<comment> \<open>U+52A8 U+6001 U+6F2B U+753B\<close>
  "zh_motioncomic = [CHR 0xE5, CHR 0x8A, CHR 0xA8, CHR 0xE6, CHR 0x80, CHR 0x81, CHR 0xE6, CHR 0xBC, CHR 0xAB, CHR 0xE7, CHR 0x94, CHR 0xBB]"

definition zh_game :: string where \<comment> \<open>U+6E38 U+620F\<close>
  "zh_game = [CHR 0xE6, CHR 0xB8, CHR 0xB8, CHR 0xE6, CHR 0x88, CHR 0x8F]"

definition zh_expansion :: string where \<comment> \<open>U+6269 U+5C55 U+5305\<close>
  "zh_expansion = [CHR 0xE6, CHR 0x89, CHR 0xA9, CHR 0xE5, CHR 0xB1, CHR 0x95, CHR 0xE5, CHR 0x8C, CHR 0x85]"

definition zh_boardgame :: string where \<comment> \<open>U+684C U+6E38\<close>
  "zh_boardgame = [CHR 0xE6, CHR 0xA1, CHR 0x8C, CHR 0xE6, CHR 0xB8, CHR 0xB8]"

definition zh_film :: string where \<comment> \<open>U+7535 U+5F71\<close>
  "zh_film = [CHR 0xE7, CHR 0x94, CHR 0xB5, CHR 0xE5, CHR 0xBD, CHR 0xB1]"

definition zh_jdrama :: string where \<comment> \<open>U+65E5 U+5267\<close>
  "zh_jdrama = [CHR 0xE6, CHR 0x97, CHR 0xA5, CHR 0xE5, CHR 0x89, CHR 0xA7]"

definition zh_cdrama :: string where \<comment> \<open>U+534E U+8BED U+5267\<close>
  "zh_cdrama = [CHR 0xE5, CHR 0x8D, CHR 0x8E, CHR 0xE8, CHR 0xAF, CHR 0xAD, CHR 0xE5, CHR 0x89, CHR 0xA7]"

definition zh_wdrama :: string where \<comment> \<open>U+6B27 U+7F8E U+5267\<close>
  "zh_wdrama = [CHR 0xE6, CHR 0xAC, CHR 0xA7, CHR 0xE7, CHR 0xBE, CHR 0x8E, CHR 0xE5, CHR 0x89, CHR 0xA7]"

definition zh_tvdrama :: string where \<comment> \<open>U+7535 U+89C6 U+5267\<close>
  "zh_tvdrama = [CHR 0xE7, CHR 0x94, CHR 0xB5, CHR 0xE8, CHR 0xA7, CHR 0x86, CHR 0xE5, CHR 0x89, CHR 0xA7]"

definition zh_live :: string where \<comment> \<open>U+6F14 U+51FA\<close>
  "zh_live = [CHR 0xE6, CHR 0xBC, CHR 0x94, CHR 0xE5, CHR 0x87, CHR 0xBA]"

definition zh_variety :: string where \<comment> \<open>U+7EFC U+827A\<close>
  "zh_variety = [CHR 0xE7, CHR 0xBB, CHR 0xBC, CHR 0xE8, CHR 0x89, CHR 0xBA]"

text \<open>
  The cases of the \<^verbatim>\<open>switch (bangumiType)\<close>, each yielding \<^verbatim>\<open>type\<close> and
  \<^verbatim>\<open>subType\<close> (which starts as \<^verbatim>\<open>null\<close>). In the case 6 the chain of
  \<^verbatim>\<open>else if\<close> ends after the statement \<^verbatim>\<open>subType = 'Live'\<close>: the
  \<^verbatim>\<open>if (subjectData.eps === 1)\<close> on the next line is a statement of its own, run for
  every platform, and the last two branches belong to it.
\<close>

definition case_book :: "jsval \<Rightarrow> MediaType \<times> jsval" where
  "case_book platform =
     (Book,
      if platform = JStr zh_manga then JStr ''Manga''
      else if platform = JStr zh_novel then JStr ''Novel''
      else if platform = JStr zh_artbook then JStr ''Artbook''
      else if platform = JStr zh_picturebook then JStr ''PictureBook''
      else if platform = JStr zh_guidebook then JStr ''GuideBook''
      else if platform = JStr zh_photobook then JStr ''PhotoBook''
      else JStr ''Other'')"

definition case_anime :: "jsval \<Rightarrow> jsval \<Rightarrow> MediaType \<times> jsval" where
  "case_anime platform eps =
     (if platform = JStr ''TV'' then (Series, JStr ''TV'')
      else if platform = JStr ''OVA'' then
        (if eps = JNum 1 then (Movie, JStr ''OVA'') else (Series, JStr ''OVA''))
      else if platform = JStr ''WEB'' then (Series, JStr ''WEB'')
      else if platform = JStr zh_theatrical then (Series, JStr [])
      else if platform = JStr ''Movie'' then (Movie, JStr ''Anime'')
      else if platform = JStr zh_motioncomic then (Series, JStr ''MotionComic'')
      else (Series, JStr ''Other''))"

definition case_game :: "jsval \<Rightarrow> MediaType \<times> jsval" where
  "case_game platform =
     (if platform = JStr zh_game then (Game, JStr ''videoGame'')
      else if platform = JStr zh_expansion then (Game, JStr ''DLC'')
      else if platform = JStr zh_boardgame then (BoardGame, JNull)
      else (Game, JStr ''videoGame''))"

definition case_real :: "jsval \<Rightarrow> jsval \<Rightarrow> MediaType \<times> jsval" where
  "case_real platform eps =
     (let first =
            (if platform = JStr zh_film then (Movie, JNull)
             else if platform = JStr zh_jdrama then (Series, JStr ''JPTV'')
             else if platform = JStr zh_cdrama then (Series, JStr ''CNTV'')
             else if platform = JStr zh_wdrama then (Series, JStr ''ENTV'')
             else if platform = JStr zh_tvdrama then (Series, JStr ''TV'')
             else if platform = JStr zh_live then (Series, JStr ''Live'')
             else (Series, JNull))
      in if eps = JNum 1 then (Movie, snd first)
         else if platform = JStr zh_variety then (fst first, JStr ''Show'')
         else (fst first, JStr ''Other''))"

text \<open>
  The \<^verbatim>\<open>switch (bangumiType)\<close>, yielding \<^verbatim>\<open>type\<close> and \<^verbatim>\<open>subType\<close> (which starts
  as \<^verbatim>\<open>null\<close>). The \<^verbatim>\<open>default\<close> branch logs a template with
  \<^verbatim>\<open>${bangumiType}\<close> in it before it sets the type, and the conversion of the
  discriminant to a string may throw.
\<close>

definition determine_type :: "jsval \<Rightarrow> js_error + MediaType \<times> jsval" where
  "determine_type subjectData =
     (let bangumiType = member_of subjectData ''type'';
          platform = member_of subjectData ''platform'';
          eps = member_of subjectData ''eps''
      in if bangumiType = JNum 1 then Inr (case_book platform)
         else if bangumiType = JNum 2 then Inr (case_anime platform eps)
         else if bangumiType = JNum 3 then Inr (MusicRelease, JNull)
         else if bangumiType = JNum 4 then Inr (case_game platform)
         else if bangumiType = JNum 6 then Inr (case_real platform eps)
         else if ToString_throws bangumiType then Inl TypeError
         else Inr (Series, JNull))"

text \<open>
  The common fields. The first statements that can throw are
  \<^verbatim>\<open>new Date(subjectData.date).getFullYear().toString()\<close> and
  \<^verbatim>\<open>new Date(subjectData.date).toISOString()\<close>, run when \<^verbatim>\<open>subjectData.date\<close> is
  true. \<^verbatim>\<open>new Date(v)\<close> makes a date of a number or of a string, and how it reads a
  string that is not in the ISO format is left to the engine by the language; it throws
  \<^verbatim>\<open>TypeError\<close> where the conversion of \<open>v\<close> to a primitive does, and
  \<^verbatim>\<open>toISOString\<close> throws \<^verbatim>\<open>RangeError\<close> on a date that is not valid. The
  parameter \<open>date_error\<close> gives the exception of these two statements on a value, if
  there is one.

  \<^verbatim>\<open>subjectData.tags.slice(0, 5).map((tag) => tag.name)\<close>, run when the tags are an
  array, reads a member of each of the first five elements.
\<close>

definition apiTags_throws :: "jsval \<Rightarrow> bool" where
  "apiTags_throws tags = (case tags of JArr ts \<Rightarrow> list_ex nullish (take 5 ts) | _ \<Rightarrow> False)"

text \<open>
  \<^verbatim>\<open>extractInfoArray(infobox, targetKeys)\<close> returns the empty list for what is not an
  array. Of an array it visits every item; an item passes the test when it is an object
  whose \<^verbatim>\<open>key\<close> is true and is one of the target keys, which are strings. The function
  \<open>matching_value\<close> gives the \<^verbatim>\<open>value\<close> of an item that passes.
\<close>

definition matching_value :: "string list \<Rightarrow> jsval \<Rightarrow> jsval option" where
  "matching_value targetKeys item =
     (case member_of item ''key'' of
        JStr k \<Rightarrow> if k \<noteq> [] \<and> k \<in> set targetKeys then Some (member_of item ''value'') else None
      | _ \<Rightarrow> None)"

text \<open>
  A value that is a string is split and trimmed, which does not throw and yields
  strings. A value that is an array is mapped with a callback that starts with
  \<^verbatim>\<open>typeof subItem === 'object' && subItem.v\<close>: the type of \<^verbatim>\<open>null\<close> is
  \<^verbatim>\<open>'object'\<close>, so on the element \<^verbatim>\<open>null\<close> the callback reads a member of
  \<^verbatim>\<open>null\<close> and throws. The callback returns \<^verbatim>\<open>subItem.v\<close> where that is true,
  whatever it is; the sub-item itself where it is a string; the empty string otherwise;
  the values that are true are kept. So the call yields something else than a string
  exactly when a sub-item that is an object has a \<^verbatim>\<open>v\<close> that is true and is not a
  string. Any other value is skipped.
\<close>

definition extractInfoArray_throws :: "jsval \<Rightarrow> string list \<Rightarrow> bool" where
  "extractInfoArray_throws infobox targetKeys =
     (case infobox of
        JArr items \<Rightarrow>
          list_ex (\<lambda>item. case matching_value targetKeys item of
                             Some (JArr subItems) \<Rightarrow> list_ex (\<lambda>subItem. subItem = JNull) subItems
                           | _ \<Rightarrow> False) items
      | _ \<Rightarrow> False)"

definition extractInfoArray_not_strings :: "jsval \<Rightarrow> string list \<Rightarrow> bool" where
  "extractInfoArray_not_strings infobox targetKeys =
     (case infobox of
        JArr items \<Rightarrow>
          list_ex (\<lambda>item. case matching_value targetKeys item of
                             Some (JArr subItems) \<Rightarrow>
                               list_ex (\<lambda>subItem. truthy (member_of subItem ''v'')
                                                   \<and> \<not> is_string (member_of subItem ''v'')) subItems
                           | _ \<Rightarrow> False) items
      | _ \<Rightarrow> False)"

text \<open>
  The target keys of the calls of \<^verbatim>\<open>extractInfoArray\<close>, as the bytes of their UTF-8
  encoding.
\<close>

definition keys_genre :: "string list" where \<comment> \<open>U+6E38 U+620F U+7C7B U+578B; U+4F53 U+88C1; U+9898 U+6750\<close>
  "keys_genre =
     [[CHR 0xE6, CHR 0xB8, CHR 0xB8, CHR 0xE6, CHR 0x88, CHR 0x8F, CHR 0xE7, CHR 0xB1, CHR 0xBB, CHR 0xE5, CHR 0x9E, CHR 0x8B],
      [CHR 0xE4, CHR 0xBD, CHR 0x93, CHR 0xE8, CHR 0xA3, CHR 0x81],
      [CHR 0xE9, CHR 0xA2, CHR 0x98, CHR 0xE6, CHR 0x9D, CHR 0x90]]"

definition keys_director :: "string list" where \<comment> \<open>U+5BFC U+6F14\<close>
  "keys_director =
     [[CHR 0xE5, CHR 0xAF, CHR 0xBC, CHR 0xE6, CHR 0xBC, CHR 0x94]]"

definition keys_producer :: "string list" where \<comment> \<open>U+5236 U+4F5C U+4EBA\<close>
  "keys_producer =
     [[CHR 0xE5, CHR 0x88, CHR 0xB6, CHR 0xE4, CHR 0xBD, CHR 0x9C, CHR 0xE4, CHR 0xBA, CHR 0xBA]]"

definition keys_supervisor :: "string list" where \<comment> \<open>U+76D1 U+7763\<close>
  "keys_supervisor =
     [[CHR 0xE7, CHR 0x9B, CHR 0x91, CHR 0xE7, CHR 0x9D, CHR 0xA3]]"

definition keys_designer :: "string list" where \<comment> \<open>U+8BBE U+8BA1 U+5E08; U+6E38 U+620F U+8BBE U+8BA1 U+5E08\<close>
  "keys_designer =
     [[CHR 0xE8, CHR 0xAE, CHR 0xBE, CHR 0xE8, CHR 0xAE, CHR 0xA1, CHR 0xE5, CHR 0xB8, CHR 0x88],
      [CHR 0xE6, CHR 0xB8, CHR 0xB8, CHR 0xE6, CHR 0x88, CHR 0x8F, CHR 0xE8, CHR 0xAE, CHR 0xBE, CHR 0xE8, CHR 0xAE, CHR 0xA1, CHR 0xE5, CHR 0xB8, CHR 0x88]]"

definition keys_programmer :: "string list" where \<comment> \<open>U+7A0B U+5E8F\<close>
  "keys_programmer =
     [[CHR 0xE7, CHR 0xA8, CHR 0x8B, CHR 0xE5, CHR 0xBA, CHR 0x8F]]"

definition keys_soundDirector :: "string list" where \<comment> \<open>U+97F3 U+54CD U+76D1 U+7763\<close>
  "keys_soundDirector =
     [[CHR 0xE9, CHR 0x9F, CHR 0xB3, CHR 0xE5, CHR 0x93, CHR 0x8D, CHR 0xE7, CHR 0x9B, CHR 0x91, CHR 0xE7, CHR 0x9D, CHR 0xA3]]"

definition keys_writer :: "string list" where \<comment> \<open>U+811A U+672C; U+539F U+4F5C\<close>
  "keys_writer =
     [[CHR 0xE8, CHR 0x84, CHR 0x9A, CHR 0xE6, CHR 0x9C, CHR 0xAC],
      [CHR 0xE5, CHR 0x8E, CHR 0x9F, CHR 0xE4, CHR 0xBD, CHR 0x9C]]"

definition keys_cast :: "string list" where \<comment> \<open>U+4E3B U+6F14; U+58F0 U+4F18; cv; U+30AD U+30E3 U+30B9 U+30C8\<close>
  "keys_cast =
     [[CHR 0xE4, CHR 0xB8, CHR 0xBB, CHR 0xE6, CHR 0xBC, CHR 0x94],
      [CHR 0xE5, CHR 0xA3, CHR 0xB0, CHR 0xE4, CHR 0xBC, CHR 0x98],
      ''cv'',
      [CHR 0xE3, CHR 0x82, CHR 0xAD, CHR 0xE3, CHR 0x83, CHR 0xA3, CHR 0xE3, CHR 0x82, CHR 0xB9, CHR 0xE3, CHR 0x83, CHR 0x88]]"

definition keys_publisher :: "string list" where \<comment> \<open>U+51FA U+7248 U+793E; U+5531 U+7247 U+516C U+53F8; U+53D1 U+884C\<close>
  "keys_publisher =
     [[CHR 0xE5, CHR 0x87, CHR 0xBA, CHR 0xE7, CHR 0x89, CHR 0x88, CHR 0xE7, CHR 0xA4, CHR 0xBE],
      [CHR 0xE5, CHR 0x94, CHR 0xB1, CHR 0xE7, CHR 0x89, CHR 0x87, CHR 0xE5, CHR 0x85, CHR 0xAC, CHR 0xE5, CHR 0x8F, CHR 0xB8],
      [CHR 0xE5, CHR 0x8F, CHR 0x91, CHR 0xE8, CHR 0xA1, CHR 0x8C]]"

definition keys_developer :: "string list" where \<comment> \<open>U+5F00 U+53D1; U+6E38 U+620F U+5F00 U+53D1\<close>
  "keys_developer =
     [[CHR 0xE5, CHR 0xBC, CHR 0x80, CHR 0xE5, CHR 0x8F, CHR 0x91],
      [CHR 0xE6, CHR 0xB8, CHR 0xB8, CHR 0xE6, CHR 0x88, CHR 0x8F, CHR 0xE5, CHR 0xBC, CHR 0x80, CHR 0xE5, CHR 0x8F, CHR 0x91]]"

definition keys_website :: "string list" where \<comment> \<open>website\<close>
  "keys_website =
     [''website'']"

definition keys_composer :: "string list" where \<comment> \<open>U+97F3 U+4E50\<close>
  "keys_composer =
     [[CHR 0xE9, CHR 0x9F, CHR 0xB3, CHR 0xE4, CHR 0xB9, CHR 0x90]]"

definition keys_artist :: "string list" where \<comment> \<open>U+7F8E U+5DE5; U+7F8E U+672F\<close>
  "keys_artist =
     [[CHR 0xE7, CHR 0xBE, CHR 0x8E, CHR 0xE5, CHR 0xB7, CHR 0xA5],
      [CHR 0xE7, CHR 0xBE, CHR 0x8E, CHR 0xE6, CHR 0x9C, CHR 0xAF]]"

definition keys_author :: "string list" where \<comment> \<open>U+4F5C U+8005\<close>
  "keys_author =
     [[CHR 0xE4, CHR 0xBD, CHR 0x9C, CHR 0xE8, CHR 0x80, CHR 0x85]]"

definition keys_platform :: "string list" where \<comment> \<open>U+5E73 U+53F0\<close>
  "keys_platform =
     [[CHR 0xE5, CHR 0xB9, CHR 0xB3, CHR 0xE5, CHR 0x8F, CHR 0xB0]]"

definition keys_musicArtist :: "string list" where \<comment> \<open>U+827A U+672F U+5BB6; U+6B4C U+624B; U+4F5C U+66F2\<close>
  "keys_musicArtist =
     [[CHR 0xE8, CHR 0x89, CHR 0xBA, CHR 0xE6, CHR 0x9C, CHR 0xAF, CHR 0xE5, CHR 0xAE, CHR 0xB6],
      [CHR 0xE6, CHR 0xAD, CHR 0x8C, CHR 0xE6, CHR 0x89, CHR 0x8B],
      [CHR 0xE4, CHR 0xBD, CHR 0x9C, CHR 0xE6, CHR 0x9B, CHR 0xB2]]"

text \<open>
  The calls that are made for every subject, in their order: the genres, then the
  thirteen roles.
\<close>

definition common_calls :: "string list list" where
  "common_calls =
     [keys_genre, keys_director, keys_producer, keys_supervisor, keys_designer,
      keys_programmer, keys_soundDirector, keys_writer, keys_cast, keys_publisher,
      keys_developer, keys_website, keys_composer, keys_artist]"

text \<open>
  The exception of the statements between the two switches, if there is one. The
  personal fields are read with \<^verbatim>\<open>?.\<close> from the user's collection entry, which does
  not throw.
\<close>

definition common_fields_error :: "(jsval \<Rightarrow> js_error option) \<Rightarrow> jsval \<Rightarrow> js_error option" where
  "common_fields_error date_error subjectData =
     (let date = member_of subjectData ''date'';
          tags = member_of subjectData ''tags'';
          infobox = member_of subjectData ''infobox''
      in if truthy date \<and> date_error date \<noteq> None then date_error date
         else if apiTags_throws tags then Some TypeError
         else if list_ex (extractInfoArray_throws infobox) common_calls then Some TypeError
         else None)"

text \<open>
  The \<^verbatim>\<open>switch (type)\<close> that instantiates the model. The case of a book and the case
  of a music release extract one more field; the case of a game extracts the platforms
  and calls \<^verbatim>\<open>s.toLowerCase()\<close> on each, a method that only a string has.
\<close>

fun construct_model :: "jsval \<Rightarrow> MediaType \<Rightarrow> api_error + MediaType" where
  "construct_model infobox Book =
     (if extractInfoArray_throws infobox keys_author then Inl (Thrown TypeError)
      else new_model Book)"
| "construct_model infobox Movie = new_model Movie"
| "construct_model infobox Series = new_model Series"
| "construct_model infobox Game =
     (if extractInfoArray_throws infobox keys_platform
         \<or> extractInfoArray_not_strings infobox keys_platform
      then Inl (Thrown TypeError)
      else new_model Game)"
| "construct_model infobox MusicRelease =
     (if extractInfoArray_throws infobox keys_musicArtist then Inl (Thrown TypeError)
      else new_model MusicRelease)"
| "construct_model infobox t = Inl (UnsupportedMediaType t)"

definition getById_later :: "(jsval \<Rightarrow> js_error option) \<Rightarrow> int \<Rightarrow> jsval \<Rightarrow> api_error + MediaType" where
  "getById_later date_error status subjectData =
     (if status \<noteq> 200 then Inl (StatusCode status)
      else if \<not> truthy subjectData \<or> \<not> truthy (member_of subjectData ''id'')
        then Inl InvalidSubjectData
      else (case determine_type subjectData of
              Inl e \<Rightarrow> Inl (Thrown e)
            | Inr ts \<Rightarrow>
                (case common_fields_error date_error subjectData of
                   Some e \<Rightarrow> Inl (Thrown e)
                 | None \<Rightarrow> construct_model (member_of subjectData ''infobox'') (fst ts))))"

text \<open>
  To run the model on a body without a date, where the engine is not asked: the engine,
  as far as the model is concerned, for which nothing is a valid date.
\<close>

definition no_valid_date :: "jsval \<Rightarrow> js_error option" where
  "no_valid_date v = Some RangeError"


section \<open>Auxiliary notions for the proofs\<close>

text \<open>
  The fields of an object \<open>d\<close> after a migration of \<open>d\<close> against itself from the input
  \<open>ob\<close>, written field by field.
\<close>

definition migrated_fields :: "(jsval \<Rightarrow> jsval \<Rightarrow> bool) \<Rightarrow> obj \<Rightarrow> obj \<Rightarrow> obj" where
  "migrated_fields tcompat ob d =
     map (\<lambda>kv. (fst kv, migrated_value tcompat ob (fst kv) (snd kv))) d"

text \<open>
  The instance that the constructor of \<^verbatim>\<open>GameModel\<close> returns, written with it.
\<close>

definition built_instance :: "(jsval \<Rightarrow> jsval \<Rightarrow> bool) \<Rightarrow> obj \<Rightarrow> obj" where
  "built_instance tcompat ob =
     set_prop ''type'' (JStr (MediaType_value GameModel_getMediaType))
       (if hasOwnProperty ob ''userData'' then migrated_fields tcompat ob GameModel_defaults
        else set_prop ''userData'' (JObj (migrated_fields tcompat ob GameModel_userData_defaults))
               (migrated_fields tcompat ob GameModel_defaults))"

text \<open>
  An input to run the model on, \<^verbatim>\<open>{title: 'Zelda', englishTitle: 'Hyrule', year: '1986',
  played: true}\<close>, and the instance that the constructor builds from it.
\<close>

definition zelda_input :: obj where
  "zelda_input =
     [(''title'', JStr ''Zelda''), (''englishTitle'', JStr ''Hyrule''), (''year'', JStr ''1986''),
      (''played'', JBool True)]"

definition zelda_game :: obj where
  "zelda_game =
     [(''type'', JStr ''game''), (''subType'', JStr []), (''title'', JStr ''Zelda''),
      (''englishTitle'', JStr ''Hyrule''), (''year'', JStr ''1986''), (''dataSource'', JStr []),
      (''url'', JStr []), (''id'', JStr []), (''apiTags'', JArr []), (''genres'', JArr []),
      (''userData'',
       JObj [(''played'', JBool True), (''personalRating'', JNum 0),
             (''personalStatus'', JUndefined), (''personalTags'', JUndefined)]),
      (''personalRating'', JUndefined), (''personalStatus'', JUndefined),
      (''personalTags'', JUndefined), (''tags'', JArr []), (''onlineRating'', JNum 0),
      (''platforms'', JArr []), (''developers'', JArr []), (''publishers'', JArr []),
      (''music'', JArr []), (''image'', JStr []), (''website'', JStr []),
      (''description'', JStr []), (''released'', JBool False), (''releaseDate'', JStr [])]"


section \<open>Objects in the store\<close>

text \<open>
  Whether a copy shares anything with its original cannot be read off values. Here
  objects and arrays live in a store and are held by reference: a cell is an object (its
  properties, in order) or an array (its elements), and a property or an element is a
  primitive value or the address of a cell. The store is the list of its cells; the
  address of a cell is its position, and a new cell is put at the end.
\<close>

type_synonym addr = nat

datatype sval = SUndefined | SNull | SBool bool | SNum int | SStr string | SRef addr

datatype cell = CObj "(string \<times> sval) list" | CArr "sval list"

type_synonym store = "cell list"

fun cell_values :: "cell \<Rightarrow> sval list" where
  "cell_values (CObj kvs) = map snd kvs"
| "cell_values (CArr vs) = vs"

text \<open>A cell of the same shape (the same keys, or again an array) with other contents.\<close>

fun with_values :: "cell \<Rightarrow> sval list \<Rightarrow> cell" where
  "with_values (CObj kvs) vs = CObj (zip (map fst kvs) vs)"
| "with_values (CArr us) vs = CArr vs"

text \<open>
  \<^verbatim>\<open>structuredClone\<close> copies what it is given cell by cell. It keeps a memory of the
  cells already copied, from the address of the original to the address of the copy, so
  that a cell reached twice is copied once (sharing and cycles inside the original are
  kept inside the copy). The memory gets the new entry before the contents of the cell
  are copied. The recursion is bounded by \<open>fuel\<close>, the depth it may reach; running
  out of fuel, or meeting an address outside the store, is \<open>None\<close>.
\<close>

type_synonym memo = "(addr \<times> addr) list"

fun clone_all ::
    "(store \<Rightarrow> memo \<Rightarrow> sval \<Rightarrow> (store \<times> memo \<times> sval) option) \<Rightarrow>
     store \<Rightarrow> memo \<Rightarrow> sval list \<Rightarrow> (store \<times> memo \<times> sval list) option" where
  "clone_all f s m [] = Some (s, m, [])"
| "clone_all f s m (v # vs) =
     (case f s m v of
        None \<Rightarrow> None
      | Some (s1, m1, v') \<Rightarrow>
          (case clone_all f s1 m1 vs of
             None \<Rightarrow> None
           | Some (s2, m2, vs') \<Rightarrow> Some (s2, m2, v' # vs')))"

primrec clone :: "nat \<Rightarrow> store \<Rightarrow> memo \<Rightarrow> sval \<Rightarrow> (store \<times> memo \<times> sval) option" where
  "clone 0 s m v = None"
| "clone (Suc fuel) s m v =
     (case v of
        SRef a \<Rightarrow>
          (case map_of m a of
             Some a' \<Rightarrow> Some (s, m, SRef a')
           | None \<Rightarrow>
               if a < length s then
                 (case clone_all (clone fuel) (s @ [CArr []]) ((a, length s) # m)
                         (cell_values (s ! a)) of
                    None \<Rightarrow> None
                  | Some (s', m', vs') \<Rightarrow>
                      Some (s'[length s := with_values (s ! a) vs'], m', SRef (length s)))
               else None)
      | _ \<Rightarrow> Some (s, m, v))"

definition structuredClone_store :: "nat \<Rightarrow> store \<Rightarrow> sval \<Rightarrow> (store \<times> sval) option" where
  "structuredClone_store fuel s v =
     (case clone fuel s [] v of
        None \<Rightarrow> None
      | Some (s', m', v') \<Rightarrow> Some (s', v'))"

text \<open>
  \<^verbatim>\<open>getWithOutUserData\<close> on the store: the instance is the cell at \<open>this\<close>; the
  result is the store after the call and the address of the copy.
\<close>

fun delete_userData :: "cell \<Rightarrow> cell" where
  "delete_userData (CObj kvs) = CObj (filter (\<lambda>kv. fst kv \<noteq> ''userData'') kvs)"
| "delete_userData (CArr vs) = CArr vs"

definition getWithOutUserData_store :: "nat \<Rightarrow> store \<Rightarrow> addr \<Rightarrow> (store \<times> addr) option" where
  "getWithOutUserData_store fuel s this =
     (case structuredClone_store fuel s (SRef this) of
        Some (s', SRef copy) \<Rightarrow> Some (s'[copy := delete_userData (s' ! copy)], copy)
      | _ \<Rightarrow> None)"

text \<open>
  The cells that can be reached from a cell: itself, and the cells that the properties and
  elements of a reachable cell hold.
\<close>

inductive reach :: "store \<Rightarrow> addr \<Rightarrow> addr \<Rightarrow> bool" for s :: store and a :: addr where
  reach_self: "reach s a a"
| reach_step: "reach s a b \<Longrightarrow> b < length s \<Longrightarrow> SRef c \<in> set (cell_values (s ! b)) \<Longrightarrow> reach s a c"

code_pred reach .

text \<open>A store is well formed when every address held in it is the address of a cell.\<close>

fun val_within :: "nat \<Rightarrow> nat \<Rightarrow> sval \<Rightarrow> bool" where
  "val_within lo hi (SRef a) = (lo \<le> a \<and> a < hi)"
| "val_within lo hi v = True"

definition cell_within :: "nat \<Rightarrow> nat \<Rightarrow> cell \<Rightarrow> bool" where
  "cell_within lo hi c = list_all (val_within lo hi) (cell_values c)"

definition wf_store :: "store \<Rightarrow> bool" where
  "wf_store s = list_all (cell_within 0 (length s)) s"

text \<open>
  A copy in the store is described by the renaming \<open>M\<close> of addresses that leads from the
  cells of the original to the cells of the copy: the image of a cell has the same shape
  and the same primitive contents, and holds the renamed address wherever the cell holds
  an address.
\<close>

fun renamed :: "memo \<Rightarrow> sval \<Rightarrow> sval" where
  "renamed M (SRef a) = (case map_of M a of None \<Rightarrow> SRef a | Some a' \<Rightarrow> SRef a')"
| "renamed M v = v"

fun val_in_dom :: "memo \<Rightarrow> sval \<Rightarrow> bool" where
  "val_in_dom M (SRef a) = (map_of M a \<noteq> None)"
| "val_in_dom M v = True"

definition image_cell :: "memo \<Rightarrow> cell \<Rightarrow> cell" where
  "image_cell M c = with_values c (map (renamed M) (cell_values c))"

definition inj_memo :: "memo \<Rightarrow> bool" where
  "inj_memo M = (\<forall>a b a'. map_of M a = Some a' \<and> map_of M b = Some a' \<longrightarrow> a = b)"

text \<open>
  The value that is read through a reference: the tree of what can be reached from it.
  The depth of the reading is bounded by \<open>fuel\<close>; a cyclic structure has no value.
\<close>

primrec value_of :: "nat \<Rightarrow> store \<Rightarrow> sval \<Rightarrow> jsval option" where
  "value_of 0 s v = None"
| "value_of (Suc fuel) s v =
     (case v of
        SUndefined \<Rightarrow> Some JUndefined
      | SNull \<Rightarrow> Some JNull
      | SBool b \<Rightarrow> Some (JBool b)
      | SNum i \<Rightarrow> Some (JNum i)
      | SStr x \<Rightarrow> Some (JStr x)
      | SRef a \<Rightarrow>
          if a < length s then
            (case s ! a of
               CObj kvs \<Rightarrow>
                 map_option (\<lambda>vs. JObj (zip (map fst kvs) vs))
                   (those (map (value_of fuel s) (map snd kvs)))
             | CArr vs \<Rightarrow> map_option JArr (those (map (value_of fuel s) vs)))
          else None)"

text \<open>
  A store to run the model on: a game whose \<^verbatim>\<open>developers\<close> and \<^verbatim>\<open>publishers\<close> are
  one and the same array (as when \<^verbatim>\<open>BangumiAPI.ts\<close> passes \<^verbatim>\<open>result.producer\<close> for
  both), with its \<^verbatim>\<open>userData\<close>.
\<close>

definition example_store :: store where
  "example_store =
     [CObj [(''title'', SStr ''Zelda''), (''developers'', SRef 1), (''publishers'', SRef 1),
            (''userData'', SRef 2)],
      CArr [SStr ''Nintendo''],
      CObj [(''played'', SBool True), (''personalTags'', SRef 3)],
      CArr [SStr ''nes'']]"


section \<open>Auxiliary notions for the proofs about the store\<close>

text \<open>
  The invariants of the copying, relative to the length \<open>L\<close> of the store (or to the
  store \<open>s0\<close>) at the start: the cells from \<open>L\<close> on hold addresses from \<open>L\<close> on only; the
  memory leads to such cells; the cells below \<open>L\<close> are not written; and every entry of
  the memory whose cell is finished leads to the image of its original.
\<close>

fun is_prim :: "sval \<Rightarrow> bool" where
  "is_prim (SRef a) = False"
| "is_prim v = True"

definition copied :: "nat \<Rightarrow> nat \<Rightarrow> sval \<Rightarrow> sval \<Rightarrow> bool" where
  "copied lo hi v v' = (if is_prim v then v' = v else \<not> is_prim v' \<and> val_within lo hi v')"

definition fresh_closed :: "nat \<Rightarrow> store \<Rightarrow> bool" where
  "fresh_closed L s = (\<forall>a. L \<le> a \<and> a < length s \<longrightarrow> cell_within L (length s) (s ! a))"

definition memo_fresh :: "nat \<Rightarrow> store \<Rightarrow> memo \<Rightarrow> bool" where
  "memo_fresh L s m = (\<forall>a a'. map_of m a = Some a' \<longrightarrow> L \<le> a' \<and> a' < length s)"

definition clone_pre :: "nat \<Rightarrow> store \<Rightarrow> memo \<Rightarrow> bool" where
  "clone_pre L s m = (L \<le> length s \<and> fresh_closed L s \<and> memo_fresh L s m)"

definition clone_post :: "nat \<Rightarrow> store \<Rightarrow> memo \<Rightarrow> store \<Rightarrow> memo \<Rightarrow> bool" where
  "clone_post L s m s' m' =
     (length s \<le> length s' \<and> clone_pre L s' m' \<and> (\<forall>b<L. s' ! b = s ! b)
      \<and> dom (map_of m) \<subseteq> dom (map_of m'))"

definition clone_good ::
    "nat \<Rightarrow> (store \<Rightarrow> memo \<Rightarrow> sval \<Rightarrow> (store \<times> memo \<times> sval) option) \<Rightarrow> bool" where
  "clone_good L f =
     (\<forall>s m v s' m' v'. clone_pre L s m \<longrightarrow> f s m v = Some (s', m', v') \<longrightarrow>
        clone_post L s m s' m' \<and> copied L (length s') v v')"

definition src_ok :: "nat \<Rightarrow> store \<Rightarrow> bool" where
  "src_ok L s = (L \<le> length s \<and> (\<forall>b<L. cell_within 0 L (s ! b)))"

definition unvisited :: "nat \<Rightarrow> memo \<Rightarrow> addr set" where
  "unvisited L m = {a. a < L} - dom (map_of m)"

definition sim :: "store \<Rightarrow> memo \<Rightarrow> store \<Rightarrow> addr \<Rightarrow> addr \<Rightarrow> bool" where
  "sim s0 M S a a' =
     (a < length s0 \<and> a' < length S \<and> S ! a' = image_cell M (s0 ! a)
      \<and> list_all (val_in_dom M) (cell_values (s0 ! a)))"

definition sim_inv :: "store \<Rightarrow> addr set \<Rightarrow> memo \<Rightarrow> store \<Rightarrow> bool" where
  "sim_inv s0 P M S = (\<forall>a a'. map_of M a = Some a' \<longrightarrow> a \<in> P \<or> sim s0 M S a a')"

definition memo_ext :: "memo \<Rightarrow> memo \<Rightarrow> bool" where
  "memo_ext M M' = (\<forall>a a'. map_of M a = Some a' \<longrightarrow> map_of M' a = Some a')"

definition sim_pre :: "store \<Rightarrow> store \<Rightarrow> memo \<Rightarrow> bool" where
  "sim_pre s0 S M =
     (src_ok (length s0) S \<and> (\<forall>b<length s0. S ! b = s0 ! b)
      \<and> (\<forall>a a'. map_of M a = Some a' \<longrightarrow> a' < length S))"

definition sim_post :: "store \<Rightarrow> store \<Rightarrow> memo \<Rightarrow> store \<Rightarrow> memo \<Rightarrow> bool" where
  "sim_post s0 S M S' M' =
     (length S \<le> length S' \<and> (\<forall>b<length S. S' ! b = S ! b) \<and> memo_ext M M'
      \<and> (\<forall>a a'. map_of M' a = Some a' \<longrightarrow>
             map_of M a = Some a' \<or> length S \<le> a' \<and> a' < length S')
      \<and> (\<forall>P. sim_inv s0 P M S \<longrightarrow> sim_inv s0 P M' S')
      \<and> (inj_memo M \<longrightarrow> inj_memo M'))"

definition clone_sim ::
    "store \<Rightarrow> (store \<Rightarrow> memo \<Rightarrow> sval \<Rightarrow> (store \<times> memo \<times> sval) option) \<Rightarrow> bool" where
  "clone_sim s0 f =
     (\<forall>S M v S' M' v'. sim_pre s0 S M \<longrightarrow> val_within 0 (length s0) v \<longrightarrow>
        f S M v = Some (S', M', v') \<longrightarrow>
        sim_post s0 S M S' M' \<and> v' = renamed M' v \<and> val_in_dom M' v)"


section \<open>Properties of objects\<close>

text \<open>
  Objects are compared as finite maps (\<open>map_of\<close>) together with the list of their
  keys. Writing a property updates the map at that key and adds the key at most once.
\<close>

lemma hasOwnProperty_keys: "hasOwnProperty ob k \<longleftrightarrow> k \<in> set (Object_keys ob)"
  by (simp add: hasOwnProperty_def Object_keys_def map_of_eq_None_iff)

lemma map_of_replace_prop:
  "map_of (replace_prop k v ob) = (if hasOwnProperty ob k then (map_of ob)(k \<mapsto> v) else map_of ob)"
  by (induction ob) (auto simp: hasOwnProperty_def fun_eq_iff)

lemma keys_replace_prop: "Object_keys (replace_prop k v ob) = Object_keys ob"
  by (induction ob) (auto simp: Object_keys_def)

lemma map_of_insert_index:
  "map_of ob k = None \<Longrightarrow> map_of (insert_index i k v ob) = (map_of ob)(k \<mapsto> v)"
proof (induction ob)
  case Nil
  show ?case by simp
next
  case (Cons a ob)
  obtain k' v' where a: "a = (k', v')" by (cases a)
  from Cons.prems have ne: "k' \<noteq> k" and none: "map_of ob k = None"
    by (auto simp: a split: if_splits)
  show ?case
  proof (cases "array_index k'")
    case None
    then show ?thesis by (auto simp: a fun_eq_iff)
  next
    case (Some j)
    show ?thesis
    proof (cases "j < i")
      case True
      then show ?thesis using Some ne Cons.IH [OF none] by (auto simp: a fun_eq_iff)
    next
      case False
      then show ?thesis using Some by (auto simp: a fun_eq_iff)
    qed
  qed
qed

lemma keys_insert_index: "set (Object_keys (insert_index i k v ob)) = insert k (set (Object_keys ob))"
proof (induction ob)
  case Nil
  show ?case by (simp add: Object_keys_def)
next
  case (Cons a ob)
  obtain k' v' where a: "a = (k', v')" by (cases a)
  show ?case
  proof (cases "array_index k'")
    case None
    then show ?thesis by (simp add: a Object_keys_def)
  next
    case (Some j)
    then show ?thesis using Cons.IH by (cases "j < i") (auto simp: a Object_keys_def)
  qed
qed


lemma distinct_insert_index:
  "distinct (Object_keys ob) \<Longrightarrow> k \<notin> set (Object_keys ob) \<Longrightarrow> distinct (Object_keys (insert_index i k v ob))"
proof (induction ob)
  case Nil
  then show ?case by (simp add: Object_keys_def)
next
  case (Cons a ob)
  obtain k' v' where a: "a = (k', v')" by (cases a)
  have "k' \<notin> set (Object_keys (insert_index i k v ob))"
    using Cons.prems by (simp add: keys_insert_index a) (auto simp: Object_keys_def)
  moreover have "distinct (Object_keys (insert_index i k v ob))"
    using Cons by (simp add: Object_keys_def)
  ultimately show ?case using Cons.prems
    by (cases "array_index k'") (auto simp: a Object_keys_def)
qed

lemma map_of_set_prop: "map_of (set_prop k v ob) = (map_of ob)(k \<mapsto> v)"
proof (cases "hasOwnProperty ob k")
  case True
  then show ?thesis by (simp add: set_prop_def map_of_replace_prop)
next
  case False
  then have "map_of ob k = None" by (simp add: hasOwnProperty_def)
  then show ?thesis using False
    by (cases "array_index k") (auto simp: set_prop_def map_of_insert_index fun_eq_iff map_add_def split: option.splits)
qed

lemma keys_set_prop: "set (Object_keys (set_prop k v ob)) = insert k (set (Object_keys ob))"
proof (cases "hasOwnProperty ob k")
  case True
  then show ?thesis by (auto simp: set_prop_def keys_replace_prop hasOwnProperty_keys)
next
  case False
  then show ?thesis
    by (cases "array_index k") (simp_all add: set_prop_def keys_insert_index, simp add: Object_keys_def)
qed

lemma distinct_set_prop:
  "distinct (Object_keys ob) \<Longrightarrow> distinct (Object_keys (set_prop k v ob))"
proof (cases "hasOwnProperty ob k")
  case True
  then show "distinct (Object_keys ob) \<Longrightarrow> ?thesis" by (simp add: set_prop_def keys_replace_prop)
next
  case False
  then have "k \<notin> set (Object_keys ob)" by (simp add: hasOwnProperty_keys)
  then show "distinct (Object_keys ob) \<Longrightarrow> ?thesis" using False
    by (cases "array_index k") (simp_all add: set_prop_def distinct_insert_index, simp add: Object_keys_def)
qed

lemma get_prop_set_prop: "get_prop (set_prop k v ob) k' = (if k' = k then v else get_prop ob k')"
  by (simp add: get_prop_def map_of_set_prop)

lemma hasOwnProperty_set_prop: "hasOwnProperty (set_prop k v ob) k' \<longleftrightarrow> k' = k \<or> hasOwnProperty ob k'"
  by (simp add: hasOwnProperty_def map_of_set_prop)

lemma assign_all_Cons: "assign_all (e # es) t = assign_all es (set_prop (fst e) (snd e) t)"
  by (simp add: assign_all_def)

lemma assign_all_Nil: "assign_all [] t = t"
  by (simp add: assign_all_def)

lemma map_of_assign_all: "map_of (assign_all es t) = map_of t ++ map_of (rev es)"
proof (induction es arbitrary: t)
  case Nil
  then show ?case by (simp add: assign_all_Nil)
next
  case (Cons e es)
  have "map_of (assign_all (e # es) t) = (map_of t)(fst e \<mapsto> snd e) ++ map_of (rev es)"
    by (simp only: assign_all_Cons Cons.IH map_of_set_prop)
  also have "\<dots> = map_of t ++ map_of (rev (e # es))"
    by (cases e) (auto simp: fun_eq_iff map_add_def split: option.splits)
  finally show ?case .
qed

lemma map_of_rev_distinct: "distinct (map fst es) \<Longrightarrow> map_of (rev es) = map_of es"
  by (subst map_of_inject_set) (simp_all add: rev_map [symmetric])

lemma keys_assign_all:
  "set (Object_keys (assign_all es t)) = set (Object_keys es) \<union> set (Object_keys t)"
proof (induction es arbitrary: t)
  case Nil
  then show ?case by (simp add: assign_all_Nil Object_keys_def)
next
  case (Cons e es)
  show ?case by (simp only: assign_all_Cons Cons.IH keys_set_prop) (auto simp: Object_keys_def)
qed

lemma distinct_assign_all:
  "distinct (Object_keys t) \<Longrightarrow> distinct (Object_keys (assign_all es t))"
proof (induction es arbitrary: t)
  case Nil
  then show ?case by (simp add: assign_all_Nil)
next
  case (Cons e es)
  then show ?case by (simp add: assign_all_Cons distinct_set_prop)
qed

lemma map_of_delete_prop: "map_of (delete_prop k ob) = (map_of ob)(k := None)"
  by (induction ob) (auto simp: delete_prop_def fun_eq_iff)

lemma distinct_delete_prop: "distinct (Object_keys ob) \<Longrightarrow> distinct (Object_keys (delete_prop k ob))"
  by (simp add: delete_prop_def Object_keys_def distinct_map_filter)

lemma keys_delete_prop: "set (Object_keys (delete_prop k ob)) = set (Object_keys ob) - {k}"
  by (auto simp: delete_prop_def Object_keys_def)

lemma Object_keys_Nil: "Object_keys [] = []"
  by (simp add: Object_keys_def)

lemma Object_keys_Cons: "Object_keys (kv # ob) = fst kv # Object_keys ob"
  by (simp add: Object_keys_def)

lemma count_distinct: "distinct ks \<Longrightarrow> k \<in> set ks \<Longrightarrow> length (filter (\<lambda>x. x = k) ks) = 1"
  by (induction ks) (auto simp: filter_empty_conv)


lemma replace_prop_map:
  "distinct (Object_keys ob) \<Longrightarrow>
   replace_prop k v ob = map (\<lambda>kv. if fst kv = k then (k, v) else kv) ob"
proof (induction ob)
  case Nil
  show ?case by simp
next
  case (Cons a ob)
  obtain k' v' where a: "a = (k', v')" by (cases a)
  from Cons.prems have d: "distinct (Object_keys ob)" and n: "k' \<notin> set (Object_keys ob)"
    by (simp_all add: Object_keys_Cons a)
  show ?case
  proof (cases "k' = k")
    case True
    then have "\<forall>kv \<in> set ob. fst kv \<noteq> k" using n by (auto simp: Object_keys_def)
    then have "map (\<lambda>kv. if fst kv = k then (k, v) else kv) ob = ob"
      by (simp add: map_idI)
    then show ?thesis using True by (simp add: a)
  next
    case False
    then show ?thesis using Cons.IH [OF d] by (simp add: a)
  qed
qed

lemma fold_set_prop_map:
  "distinct (Object_keys ob) \<Longrightarrow> set ks \<subseteq> set (Object_keys ob) \<Longrightarrow>
   fold (\<lambda>k acc. set_prop k (f k) acc) ks ob
     = map (\<lambda>kv. if fst kv \<in> set ks then (fst kv, f (fst kv)) else kv) ob"
proof (induction ks arbitrary: ob)
  case Nil
  show ?case by simp
next
  case (Cons k ks)
  let ?ob = "map (\<lambda>kv. if fst kv = k then (k, f k) else kv) ob"
  have has: "hasOwnProperty ob k" using Cons.prems by (simp add: hasOwnProperty_keys)
  have step: "set_prop k (f k) ob = ?ob"
    using has Cons.prems(1) by (simp add: set_prop_def replace_prop_map)
  have keys: "Object_keys ?ob = Object_keys ob"
    by (simp add: Object_keys_def comp_def cong: map_cong)
  have "fold (\<lambda>k acc. set_prop k (f k) acc) (k # ks) ob
          = map (\<lambda>kv. if fst kv \<in> set ks then (fst kv, f (fst kv)) else kv) ?ob"
    using Cons.IH [of ?ob] Cons.prems by (simp add: step keys)
  also have "\<dots> = map (\<lambda>kv. if fst kv \<in> set (k # ks) then (fst kv, f (fst kv)) else kv) ob"
    by (auto simp: comp_def)
  finally show ?case .
qed

lemma get_prop_distinct:
  "distinct (Object_keys ob) \<Longrightarrow> kv \<in> set ob \<Longrightarrow> get_prop ob (fst kv) = snd kv"
  by (cases kv) (simp add: get_prop_def Object_keys_def)

lemma migrateObject_self:
  assumes "distinct (Object_keys d)"
  shows "migrateObject tcompat d old d
           = map (\<lambda>kv. (fst kv, migrated_value tcompat old (fst kv) (snd kv))) d"
proof -
  have "migrateObject tcompat d old d
          = map (\<lambda>kv. if fst kv \<in> set (Object_keys d)
                       then (fst kv, migrated_value tcompat old (fst kv) (get_prop d (fst kv)))
                       else kv) d"
    unfolding migrateObject_def using assms by (rule fold_set_prop_map) simp
  also have "\<dots> = map (\<lambda>kv. (fst kv, migrated_value tcompat old (fst kv) (snd kv))) d"
    using assms by (auto simp: get_prop_distinct Object_keys_def)
  finally show ?thesis .
qed


lemma map_of_keyed_map:
  "map_of (map (\<lambda>kv. (fst kv, g (fst kv) (snd kv))) d) k = map_option (g k) (map_of d k)"
  by (induction d) auto

lemma map_of_migrated_fields:
  "map_of (migrated_fields tcompat ob d) k = map_option (migrated_value tcompat ob k) (map_of d k)"
  unfolding migrated_fields_def by (rule map_of_keyed_map)

lemma get_prop_migrated_fields:
  "get_prop (migrated_fields tcompat ob d) k
     = (if hasOwnProperty d k then migrated_value tcompat ob k (get_prop d k) else JUndefined)"
  by (auto simp: get_prop_def map_of_migrated_fields hasOwnProperty_def)

lemma keys_migrated_fields: "Object_keys (migrated_fields tcompat ob d) = Object_keys d"
  by (simp add: migrated_fields_def Object_keys_def comp_def)

lemma hasOwnProperty_migrated_fields:
  "hasOwnProperty (migrated_fields tcompat ob d) k = hasOwnProperty d k"
  by (simp add: hasOwnProperty_keys keys_migrated_fields)

lemma migrateObject_self_fields:
  "distinct (Object_keys d) \<Longrightarrow> migrateObject tcompat d ob d = migrated_fields tcompat ob d"
  unfolding migrated_fields_def by (rule migrateObject_self)

lemma migrated_value_absent: "\<not> hasOwnProperty ob k \<Longrightarrow> migrated_value tcompat ob k d = d"
  by (simp add: migrated_value_def)

lemma keys_set_prop_has:
  "hasOwnProperty ob k \<Longrightarrow> Object_keys (set_prop k v ob) = Object_keys ob"
  by (simp add: set_prop_def keys_replace_prop)

lemma obj_eqI:
  "Object_keys a = Object_keys b \<Longrightarrow> distinct (Object_keys a) \<Longrightarrow>
   (\<And>k. k \<in> set (Object_keys a) \<Longrightarrow> get_prop a k = get_prop b k) \<Longrightarrow> a = b"
proof (induction a arbitrary: b)
  case Nil
  then show ?case by (simp add: Object_keys_def)
next
  case (Cons x a)
  from Cons.prems(1) obtain y b' where b: "b = y # b'" and k: "fst x = fst y"
    and ks: "Object_keys a = Object_keys b'"
    by (cases b) (auto simp: Object_keys_def)
  have d: "distinct (Object_keys a)" and nin: "fst x \<notin> set (Object_keys a)"
    using Cons.prems(2) by (simp_all add: Object_keys_Cons)
  have "get_prop (x # a) (fst x) = get_prop b (fst x)"
    by (rule Cons.prems(3)) (simp add: Object_keys_Cons)
  then have v: "snd x = snd y" using k by (simp add: get_prop_def b)
  have "a = b'"
  proof (rule Cons.IH [OF ks d])
    fix k' assume k': "k' \<in> set (Object_keys a)"
    then have ne: "k' \<noteq> fst x" using nin by auto
    have "get_prop (x # a) k' = get_prop b k'"
      by (rule Cons.prems(3)) (simp add: Object_keys_Cons k')
    then show "get_prop a k' = get_prop b' k'"
      using ne k by (cases x; cases y) (auto simp: get_prop_def b)
  qed
  then show ?case using k v by (simp add: b prod_eq_iff)
qed


lemma keys_delete_prop_list: "Object_keys (delete_prop k ob) = filter (\<lambda>x. x \<noteq> k) (Object_keys ob)"
  by (simp add: delete_prop_def Object_keys_def filter_map comp_def)

lemma keys_insert_index_cong:
  "Object_keys ob = Object_keys ob' \<Longrightarrow>
   Object_keys (insert_index i k v ob) = Object_keys (insert_index i k v' ob')"
proof (induction ob arbitrary: ob')
  case Nil
  then show ?case by (simp add: Object_keys_def)
next
  case (Cons a ob)
  from Cons.prems obtain a' ob'' where o: "ob' = a' # ob''" and f: "fst a = fst a'"
    and ks: "Object_keys ob = Object_keys ob''"
    by (cases ob') (auto simp: Object_keys_def)
  obtain ka va where a: "a = (ka, va)" by (cases a)
  obtain va' where a': "a' = (ka, va')" using f a by (cases a') auto
  show ?case using Cons.IH [OF ks] ks
    by (cases "array_index ka") (auto simp: o a a' Object_keys_def)
qed

lemma keys_set_prop_cong:
  assumes "Object_keys ob = Object_keys ob'"
  shows "Object_keys (set_prop k v ob) = Object_keys (set_prop k v' ob')"
proof -
  have h: "hasOwnProperty ob k = hasOwnProperty ob' k"
    by (simp add: hasOwnProperty_keys assms)
  show ?thesis
  proof (cases "hasOwnProperty ob k")
    case True
    then show ?thesis using h assms by (simp add: set_prop_def keys_replace_prop)
  next
    case False
    then show ?thesis using h assms keys_insert_index_cong [OF assms]
      by (cases "array_index k") (simp_all add: set_prop_def, simp add: Object_keys_def)
  qed
qed

lemma keys_assign_all_cong:
  "Object_keys es = Object_keys es' \<Longrightarrow> Object_keys t = Object_keys t' \<Longrightarrow>
   Object_keys (assign_all es t) = Object_keys (assign_all es' t')"
proof (induction es arbitrary: es' t t')
  case Nil
  then show ?case by (simp add: assign_all_Nil Object_keys_def)
next
  case (Cons e es)
  from Cons.prems(1) obtain e' es'' where o: "es' = e' # es''" and f: "fst e = fst e'"
    and ks: "Object_keys es = Object_keys es''"
    by (cases es') (auto simp: Object_keys_def)
  have "Object_keys (set_prop (fst e) (snd e) t) = Object_keys (set_prop (fst e') (snd e') t')"
    using keys_set_prop_cong [OF Cons.prems(2)] f by simp
  then show ?case using Cons.IH [OF ks] by (simp add: o assign_all_Cons)
qed


text \<open>
  The decimal numeral of a number determines the number, so the index keys under which
  an array or a string spreads its elements are distinct.
\<close>

lemma digit_value_digit_char: "d < 10 \<Longrightarrow> digit_value (digit_char d) = Some d"
proof -
  have "list_all (\<lambda>d. digit_value (digit_char d) = Some d) [0 ..< 10]" by code_simp
  then show "d < 10 \<Longrightarrow> ?thesis" by (simp add: list_all_iff)
qed

lemma digits_value_append:
  "digits_value acc (xs @ ys) =
     (case digits_value acc xs of None \<Rightarrow> None | Some n \<Rightarrow> digits_value n ys)"
  by (induction xs arbitrary: acc) (auto split: option.splits)

lemma digits_value_string_of_nat: "digits_value 0 (string_of_nat n) = Some n"
proof (induction n rule: string_of_nat.induct)
  case (1 n)
  show ?case
  proof (cases "n < 10")
    case True
    then show ?thesis
      by (subst string_of_nat.simps) (simp add: digit_value_digit_char)
  next
    case False
    then have "digits_value 0 (string_of_nat (n div 10)) = Some (n div 10)" by (rule 1)
    then show ?thesis using False
      by (subst string_of_nat.simps) (simp add: digits_value_append digit_value_digit_char)
  qed
qed

lemma string_of_nat_inject:
  assumes "string_of_nat m = string_of_nat n"
  shows "m = n"
proof -
  have "Some m = digits_value 0 (string_of_nat m)" by (simp only: digits_value_string_of_nat)
  also have "\<dots> = digits_value 0 (string_of_nat n)" by (simp only: assms)
  also have "\<dots> = Some n" by (rule digits_value_string_of_nat)
  finally show ?thesis by simp
qed

lemma keys_indexed_ge:
  "k \<in> set (Object_keys (indexed i vs)) \<Longrightarrow> \<exists>j. i \<le> j \<and> k = string_of_nat j"
proof (induction vs arbitrary: i)
  case Nil
  then show ?case by (simp add: Object_keys_def)
next
  case (Cons v vs)
  from Cons.prems consider "k = string_of_nat i" | "k \<in> set (Object_keys (indexed (Suc i) vs))"
    by (auto simp: Object_keys_def)
  then show ?case
  proof cases
    case 1
    then show ?thesis by auto
  next
    case 2
    then obtain j where "Suc i \<le> j \<and> k = string_of_nat j" using Cons.IH by blast
    then show ?thesis by (auto intro: Suc_leD)
  qed
qed

lemma distinct_indexed: "distinct (Object_keys (indexed i vs))"
proof (induction vs arbitrary: i)
  case Nil
  show ?case by (simp add: Object_keys_def)
next
  case (Cons v vs)
  have "string_of_nat i \<notin> set (Object_keys (indexed (Suc i) vs))"
  proof
    assume "string_of_nat i \<in> set (Object_keys (indexed (Suc i) vs))"
    then obtain j where "Suc i \<le> j" and "string_of_nat i = string_of_nat j"
      using keys_indexed_ge by blast
    then show False by (auto dest: string_of_nat_inject)
  qed
  then show ?case using Cons [of "Suc i"] by (simp add: Object_keys_def)
qed

lemma distinct_own_entries:
  "(case v of JObj ud \<Rightarrow> distinct (Object_keys ud) | _ \<Rightarrow> True) \<Longrightarrow>
   distinct (Object_keys (own_entries v))"
  by (cases v) (simp_all add: distinct_indexed Object_keys_Nil)


section \<open>The export payload\<close>

lemma distinct_toMetaDataObject: "distinct (Object_keys (toMetaDataObject getTags this))"
  by (simp add: toMetaDataObject_def distinct_assign_all Object_keys_Nil)

lemma keys_toMetaDataObject_cong:
  assumes "Object_keys this = Object_keys this'"
      and "Object_keys (own_entries (get_prop this ''userData''))
             = Object_keys (own_entries (get_prop this' ''userData''))"
  shows "Object_keys (toMetaDataObject getTags this) = Object_keys (toMetaDataObject getTags' this')"
  unfolding toMetaDataObject_def
proof (intro keys_assign_all_cong)
  show "Object_keys [(''tags'', JStr (Array_join ''/'' getTags))]
          = Object_keys [(''tags'', JStr (Array_join ''/'' getTags'))]"
    by (simp add: Object_keys_def)
  show "Object_keys (own_entries (get_prop this ''userData''))
          = Object_keys (own_entries (get_prop this' ''userData''))" by (rule assms)
  show "Object_keys (getWithOutUserData this) = Object_keys (getWithOutUserData this')"
    by (simp add: getWithOutUserData_def structuredClone_def keys_delete_prop_list assms)
  show "Object_keys ([]::obj) = Object_keys []" by simp
qed

lemma keys_toMetaDataObject:
  "set (Object_keys (toMetaDataObject getTags this))
     = insert ''tags'' (set (Object_keys (own_entries (get_prop this ''userData'')))
         \<union> (set (Object_keys this) - {''userData''}))"
  by (simp add: toMetaDataObject_def keys_assign_all getWithOutUserData_def structuredClone_def
      keys_delete_prop Object_keys_Cons Object_keys_Nil Un_commute)

lemma map_of_toMetaDataObject:
  assumes "distinct (Object_keys this)"
      and "distinct (Object_keys (own_entries (get_prop this ''userData'')))"
  shows "map_of (toMetaDataObject getTags this)
           = (map_of (getWithOutUserData this) ++ map_of (own_entries (get_prop this ''userData'')))
               (''tags'' \<mapsto> JStr (Array_join ''/'' getTags))"
proof -
  have "distinct (Object_keys (getWithOutUserData this))"
    using assms(1) by (simp add: getWithOutUserData_def structuredClone_def distinct_delete_prop)
  then have a: "map_of (rev (getWithOutUserData this)) = map_of (getWithOutUserData this)"
    by (simp add: map_of_rev_distinct Object_keys_def)
  have b: "map_of (rev (own_entries (get_prop this ''userData'')))
             = map_of (own_entries (get_prop this ''userData''))"
    using assms(2) by (simp add: map_of_rev_distinct Object_keys_def)
  show ?thesis
    by (simp add: toMetaDataObject_def map_of_assign_all a b)
qed

text \<open>
  Claim C10. For every record instance, whatever its own \<^verbatim>\<open>tags\<close> field and whatever
  \<^verbatim>\<open>tags\<close> entry its \<^verbatim>\<open>userData\<close> holds, the export payload has the key
  \<^verbatim>\<open>tags\<close> exactly once, and its value is \<^verbatim>\<open>getTags().join('/')\<close>.
\<close>

theorem tags_overwritten:
  "get_prop (toMetaDataObject getTags this) ''tags'' = JStr (Array_join ''/'' getTags)
   \<and> length (filter (\<lambda>k. k = ''tags'') (Object_keys (toMetaDataObject getTags this))) = 1"
proof -
  have k: "''tags'' \<in> set (Object_keys (toMetaDataObject getTags this))"
    by (simp add: toMetaDataObject_def keys_assign_all Object_keys_Cons)
  have "get_prop (toMetaDataObject getTags this) ''tags'' = JStr (Array_join ''/'' getTags)"
    by (simp add: toMetaDataObject_def assign_all_Cons assign_all_Nil get_prop_set_prop)
  then show ?thesis using count_distinct [OF distinct_toMetaDataObject k] by simp
qed


lemma zelda_game_built: "GameModel_constructor sameKind zelda_input = Inr zelda_game"
  by code_simp

lemma get_prop_toMetaDataObject:
  assumes "distinct (Object_keys this)"
      and "distinct (Object_keys (own_entries (get_prop this ''userData'')))"
  shows "get_prop (toMetaDataObject getTags this) k =
           (if k = ''tags'' then JStr (Array_join ''/'' getTags)
            else if hasOwnProperty (own_entries (get_prop this ''userData'')) k
              then get_prop (own_entries (get_prop this ''userData'')) k
            else if k = ''userData'' then JUndefined
            else get_prop this k)"
  by (auto simp: get_prop_def map_of_toMetaDataObject [OF assms] hasOwnProperty_def map_add_def
      getWithOutUserData_def structuredClone_def map_of_delete_prop split: option.splits)

text \<open>
  Claim C1. For every record instance (an object, so its keys are distinct, and so are
  those of its \<^verbatim>\<open>userData\<close> when that is an object), the export payload is, key by
  key, the merge of \<^verbatim>\<open>getWithOutUserData()\<close> with the fields of \<^verbatim>\<open>userData\<close>, the
  latter winning, and on top of it the key \<^verbatim>\<open>tags\<close> holding \<^verbatim>\<open>getTags()\<close> joined
  with a slash. The payload names each key once.
\<close>

theorem toMetaDataObject_merge:
  assumes "distinct (Object_keys this)"
      and "case get_prop this ''userData'' of JObj ud \<Rightarrow> distinct (Object_keys ud) | _ \<Rightarrow> True"
  shows "map_of (toMetaDataObject getTags this)
           = (map_of (getWithOutUserData this) ++ map_of (own_entries (get_prop this ''userData'')))
               (''tags'' \<mapsto> JStr (Array_join ''/'' getTags))
         \<and> distinct (Object_keys (toMetaDataObject getTags this))"
  using map_of_toMetaDataObject [OF assms(1) distinct_own_entries [OF assms(2)]]
    distinct_toMetaDataObject by simp

theorem toMetaDataObject_merge_witness:
  "GameModel_constructor sameKind zelda_input = Inr zelda_game
   \<and> distinct (Object_keys zelda_game)
   \<and> (case get_prop zelda_game ''userData'' of JObj ud \<Rightarrow> distinct (Object_keys ud) | _ \<Rightarrow> True)
   \<and> map_of (toMetaDataObject [''mediaDB'', ''game''] zelda_game)
       = (map_of (getWithOutUserData zelda_game)
          ++ map_of (own_entries (get_prop zelda_game ''userData'')))
         (''tags'' \<mapsto> JStr ''mediaDB/game'')"
proof -
  have a: "distinct (Object_keys zelda_game)" by code_simp
  have b: "case get_prop zelda_game ''userData'' of JObj ud \<Rightarrow> distinct (Object_keys ud) | _ \<Rightarrow> True"
    by code_simp
  from toMetaDataObject_merge [OF a b, of "[''mediaDB'', ''game'']"]
  have "map_of (toMetaDataObject [''mediaDB'', ''game''] zelda_game)
       = (map_of (getWithOutUserData zelda_game)
          ++ map_of (own_entries (get_prop zelda_game ''userData'')))
         (''tags'' \<mapsto> JStr ''mediaDB/game'')" by simp
  with zelda_game_built a b show ?thesis by (intro conjI)
qed


section \<open>The constructor of \<^verbatim>\<open>GameModel\<close>\<close>

text \<open>
  The defaults are a fixed object; the constructor keeps its keys, in their order, and
  fills each field from the input or from the default.
\<close>

lemma keys_GameModel_defaults:
  "Object_keys GameModel_defaults =
     [''type'', ''subType'', ''title'', ''englishTitle'', ''year'', ''dataSource'', ''url'', ''id'',
      ''apiTags'', ''genres'', ''userData'', ''personalRating'', ''personalStatus'',
      ''personalTags'', ''tags'', ''onlineRating'', ''platforms'', ''developers'', ''publishers'',
      ''music'', ''image'', ''website'', ''description'', ''released'', ''releaseDate'']"
  by code_simp

lemma distinct_GameModel_defaults: "distinct (Object_keys GameModel_defaults)"
  by code_simp

lemma userData_GameModel_defaults:
  "get_prop GameModel_defaults ''userData'' = JObj GameModel_userData_defaults"
  by code_simp

lemma distinct_userData_defaults: "distinct (Object_keys GameModel_userData_defaults)"
  by code_simp

lemma has_userData_defaults: "hasOwnProperty GameModel_defaults ''userData''"
  by code_simp

lemma has_type_defaults: "hasOwnProperty GameModel_defaults ''type''"
  by code_simp

lemma no_hasOwnProperty_defaults: "\<not> hasOwnProperty GameModel_defaults ''hasOwnProperty''"
  by code_simp

text \<open>
  The constructor throws on an input with an own property \<^verbatim>\<open>hasOwnProperty\<close>, and
  returns the instance written with \<open>migrated_fields\<close> on any other.
\<close>

lemma constructor_eq:
  "GameModel_constructor tcompat ob =
     (if hasOwnProperty ob ''hasOwnProperty'' then Inl TypeError
      else Inr (built_instance tcompat ob))"
proof -
  have u: "\<not> hasOwnProperty ob ''userData'' \<Longrightarrow>
      get_prop (migrated_fields tcompat ob GameModel_defaults) ''userData''
        = JObj GameModel_userData_defaults"
    by (simp add: get_prop_migrated_fields has_userData_defaults migrated_value_absent
        userData_GameModel_defaults)
  show ?thesis
    by (simp add: GameModel_constructor_def GameModel_constructor_with_def Let_def u
        call_hasOwnProperty_def built_instance_def
        migrate_userData_def migrateObject_self_fields distinct_GameModel_defaults
        distinct_userData_defaults)
qed

lemma constructor_returns:
  "\<not> hasOwnProperty ob ''hasOwnProperty'' \<Longrightarrow>
   GameModel_constructor tcompat ob = Inr (built_instance tcompat ob)"
  by (simp add: constructor_eq)

lemma constructor_throws:
  "hasOwnProperty ob ''hasOwnProperty'' \<Longrightarrow> GameModel_constructor tcompat ob = Inl TypeError"
  by (simp add: constructor_eq)

lemma constructor_Inr:
  "GameModel_constructor tcompat ob = Inr r \<Longrightarrow>
   \<not> hasOwnProperty ob ''hasOwnProperty'' \<and> r = built_instance tcompat ob"
  by (simp add: constructor_eq split: if_splits)

lemma built_keys:
  "Object_keys (built_instance tcompat ob) = Object_keys GameModel_defaults"
  by (simp add: built_instance_def keys_set_prop_has hasOwnProperty_set_prop
      hasOwnProperty_migrated_fields keys_migrated_fields has_type_defaults has_userData_defaults)

lemma built_get:
  "get_prop (built_instance tcompat ob) k =
     (if k = ''type'' then JStr (MediaType_value GameModel_getMediaType)
      else if k = ''userData'' \<and> \<not> hasOwnProperty ob ''userData''
        then JObj (migrated_fields tcompat ob GameModel_userData_defaults)
      else if hasOwnProperty GameModel_defaults k
        then migrated_value tcompat ob k (get_prop GameModel_defaults k)
      else JUndefined)"
  by (simp add: built_instance_def get_prop_set_prop get_prop_migrated_fields)

text \<open>
  Claim C4. Whatever the input object holds, under its \<^verbatim>\<open>type\<close> key or elsewhere,
  and whatever the migration makes of it, the instance the constructor leaves has its
  \<^verbatim>\<open>type\<close> field equal to the media kind that \<^verbatim>\<open>getMediaType\<close> declares. The
  constructor leaves an instance on every input but one with an own property
  \<^verbatim>\<open>hasOwnProperty\<close>, on which it throws \<^verbatim>\<open>TypeError\<close>.
\<close>

theorem constructor_sets_type:
  "(\<forall>this. GameModel_constructor_with migrate ob = Inr this \<longrightarrow>
       get_prop this ''type'' = JStr (MediaType_value GameModel_getMediaType))
   \<and> (\<not> hasOwnProperty ob ''hasOwnProperty'' \<longrightarrow>
         (\<exists>this. GameModel_constructor_with migrate ob = Inr this))
   \<and> (hasOwnProperty ob ''hasOwnProperty'' \<longrightarrow>
         GameModel_constructor_with migrate ob = Inl TypeError)"
  by (auto simp: GameModel_constructor_with_def Let_def call_hasOwnProperty_def get_prop_set_prop)

theorem constructor_sets_type_witness:
  "\<not> hasOwnProperty [(''type'', JStr ''movie'')] ''hasOwnProperty''
   \<and> GameModel_constructor_with (migrateObject sameKind) [(''type'', JStr ''movie'')]
       = Inr (set_prop ''type'' (JStr ''game'') GameModel_defaults)
   \<and> get_prop (set_prop ''type'' (JStr ''game'') GameModel_defaults) ''type''
       = JStr (MediaType_value GameModel_getMediaType)"
proof -
  have h: "\<not> hasOwnProperty [(''type'', JStr ''movie'')] ''hasOwnProperty''" by code_simp
  have r: "GameModel_constructor_with (migrateObject sameKind) [(''type'', JStr ''movie'')]
             = Inr (set_prop ''type'' (JStr ''game'') GameModel_defaults)"
    by code_simp
  note t = constructor_sets_type
      [of "migrateObject sameKind" "[(''type'', JStr ''movie'')]", THEN conjunct1, THEN spec,
       THEN mp, OF r]
  from h r t show ?thesis by (intro conjI)
qed


text \<open>
  An object with the fields of the variant, the variant's media kind as its
  \<^verbatim>\<open>type\<close>, and in each field a value that is type-compatible with the default, is
  what the constructor makes of it.
\<close>

lemma built_reproduces:
  assumes keys: "Object_keys r = Object_keys GameModel_defaults"
      and type: "get_prop r ''type'' = JStr (MediaType_value GameModel_getMediaType)"
      and tc: "\<forall>k \<in> set (Object_keys r). tcompat (get_prop r k) (get_prop GameModel_defaults k)"
  shows "built_instance tcompat r = r"
proof (rule obj_eqI)
  show "Object_keys (built_instance tcompat r) = Object_keys r"
    by (simp add: built_keys keys)
  show "distinct (Object_keys (built_instance tcompat r))"
    by (simp add: built_keys distinct_GameModel_defaults)
  fix k assume "k \<in> set (Object_keys (built_instance tcompat r))"
  then have k: "k \<in> set (Object_keys r)" by (simp add: built_keys keys)
  then have h: "hasOwnProperty r k" "hasOwnProperty GameModel_defaults k"
    by (simp_all add: hasOwnProperty_keys keys)
  have u: "hasOwnProperty r ''userData''"
    by (simp add: hasOwnProperty_keys keys keys_GameModel_defaults)
  show "get_prop (built_instance tcompat r) k = get_prop r k"
    using type tc k h u by (simp add: built_get migrated_value_def)
qed

lemma constructor_reproduces:
  assumes keys: "Object_keys r = Object_keys GameModel_defaults"
      and type: "get_prop r ''type'' = JStr (MediaType_value GameModel_getMediaType)"
      and tc: "\<forall>k \<in> set (Object_keys r). tcompat (get_prop r k) (get_prop GameModel_defaults k)"
  shows "GameModel_constructor tcompat r = Inr r"
proof -
  have "\<not> hasOwnProperty r ''hasOwnProperty''"
    using no_hasOwnProperty_defaults by (simp add: hasOwnProperty_keys keys)
  then show ?thesis
    by (simp add: constructor_returns built_reproduces [OF assms])
qed

text \<open>
  Under the reading of "type-compatible" as "of the same kind", every instance the
  constructor builds is such an object.
\<close>

lemma sameKind_refl: "sameKind v v"
  by (simp add: sameKind_def)

lemma type_GameModel_defaults: "get_prop GameModel_defaults ''type'' = JStr []"
  by code_simp

lemma constructor_idempotent_sameKind_aux:
  assumes k: "k \<in> set (Object_keys GameModel_defaults)"
  shows "sameKind (get_prop (built_instance sameKind ob) k) (get_prop GameModel_defaults k)"
proof -
  have h: "hasOwnProperty GameModel_defaults k" using k by (simp add: hasOwnProperty_keys)
  show ?thesis
    using h
    by (auto simp: built_get type_GameModel_defaults userData_GameModel_defaults
        migrated_value_def sameKind_refl) (simp_all add: sameKind_def)
qed

lemma constructor_idempotent_sameKind:
  assumes "GameModel_constructor sameKind ob = Inr r"
  shows "GameModel_constructor sameKind r = Inr r"
proof -
  from assms have r: "r = built_instance sameKind ob" by (simp add: constructor_Inr)
  show ?thesis
    unfolding r
  proof (rule constructor_reproduces)
    show "Object_keys (built_instance sameKind ob) = Object_keys GameModel_defaults"
      by (rule built_keys)
    show "get_prop (built_instance sameKind ob) ''type''
            = JStr (MediaType_value GameModel_getMediaType)"
      by (simp add: built_get)
    show "\<forall>k \<in> set (Object_keys (built_instance sameKind ob)).
            sameKind (get_prop (built_instance sameKind ob) k) (get_prop GameModel_defaults k)"
      by (simp add: built_keys constructor_idempotent_sameKind_aux)
  qed
qed

text \<open>
  Claim C8. Let \<open>r\<close> be a fully populated instance of the variant: it has the fields of
  the variant, its \<^verbatim>\<open>type\<close> is the variant's media kind, and each field holds a value
  that is type-compatible with the default of that field. Constructing the variant again
  from \<open>r\<close> returns, and yields \<open>r\<close>: the same fields with the same values, the
  \<^verbatim>\<open>userData\<close> object included.
\<close>

theorem migration_idempotent:
  assumes "Object_keys r = Object_keys GameModel_defaults"
      and "get_prop r ''type'' = JStr (MediaType_value GameModel_getMediaType)"
      and "\<forall>k \<in> set (Object_keys r). tcompat (get_prop r k) (get_prop GameModel_defaults k)"
  shows "GameModel_constructor tcompat r = Inr r"
  using assms by (rule constructor_reproduces)

theorem migration_idempotent_witness:
  "GameModel_constructor sameKind zelda_input = Inr zelda_game
   \<and> Object_keys zelda_game = Object_keys GameModel_defaults
   \<and> get_prop zelda_game ''type'' = JStr (MediaType_value GameModel_getMediaType)
   \<and> list_all (\<lambda>k. sameKind (get_prop zelda_game k) (get_prop GameModel_defaults k))
        (Object_keys zelda_game)
   \<and> GameModel_constructor sameKind zelda_game = Inr zelda_game"
proof -
  have a: "Object_keys zelda_game = Object_keys GameModel_defaults" by code_simp
  have b: "get_prop zelda_game ''type'' = JStr (MediaType_value GameModel_getMediaType)"
    by code_simp
  have c: "list_all (\<lambda>k. sameKind (get_prop zelda_game k) (get_prop GameModel_defaults k))
             (Object_keys zelda_game)"
    by code_simp
  then have c': "\<forall>k \<in> set (Object_keys zelda_game).
                   sameKind (get_prop zelda_game k) (get_prop GameModel_defaults k)"
    by (simp add: list_all_iff)
  from migration_idempotent [OF a b c'] zelda_game_built a b c show ?thesis by (intro conjI)
qed


lemma userData_built_legacy:
  "\<not> hasOwnProperty ob ''userData'' \<Longrightarrow>
   own_entries (get_prop (built_instance tcompat ob) ''userData'')
     = migrated_fields tcompat ob GameModel_userData_defaults"
  by (simp add: built_get)

lemma hasOwnProperty_Nil: "\<not> hasOwnProperty [] k"
  by (simp add: hasOwnProperty_def)

lemma get_prop_export_legacy:
  assumes "\<not> hasOwnProperty ob ''userData''"
  shows "get_prop (GameModel_toMetaDataObject mediaDbTag (built_instance tcompat ob)) k =
           (if k = ''tags'' then JStr (Array_join ''/'' (GameModel_getTags mediaDbTag))
            else if hasOwnProperty GameModel_userData_defaults k
              then migrated_value tcompat ob k (get_prop GameModel_userData_defaults k)
            else if k = ''userData'' then JUndefined
            else get_prop (built_instance tcompat ob) k)"
proof -
  have d1: "distinct (Object_keys (built_instance tcompat ob))"
    by (simp add: built_keys distinct_GameModel_defaults)
  have d2: "distinct (Object_keys (own_entries
              (get_prop (built_instance tcompat ob) ''userData'')))"
    by (simp add: userData_built_legacy [OF assms] keys_migrated_fields
        distinct_userData_defaults)
  show ?thesis
    unfolding GameModel_toMetaDataObject_def get_prop_toMetaDataObject [OF d1 d2]
      userData_built_legacy [OF assms]
    by (simp add: hasOwnProperty_migrated_fields get_prop_migrated_fields)
qed

text \<open>
  The claim C3 as stated says that an input without a \<^verbatim>\<open>userData\<close> key leaves every
  field of \<^verbatim>\<open>userData\<close> at its default. The input \<^verbatim>\<open>{title: 'Zelda', englishTitle:
  'Hyrule', year: '1986', played: true}\<close> has no such key, and the instance built from
  it has \<^verbatim>\<open>userData.played\<close> other than the default.
\<close>

theorem legacy_userData_counterexample:
  "\<not> hasOwnProperty zelda_input ''userData''
   \<and> GameModel_constructor sameKind zelda_input = Inr zelda_game
   \<and> member_of (get_prop zelda_game ''userData'') ''played''
      \<noteq> get_prop GameModel_userData_defaults ''played''"
  by code_simp

text \<open>
  Claim C3, amended. The constructor throws \<^verbatim>\<open>TypeError\<close> on an input with an own
  property \<^verbatim>\<open>hasOwnProperty\<close>. For every other input object that has no
  \<^verbatim>\<open>userData\<close> key, the constructor returns an instance whose \<^verbatim>\<open>userData\<close> has
  the declared fields, and each of them holds the input's top-level value of the same
  name when the input has one that is type-compatible with the field's default, and the
  default otherwise.
\<close>

theorem legacy_input_fills_userData:
  "(hasOwnProperty ob ''hasOwnProperty'' \<longrightarrow> GameModel_constructor tcompat ob = Inl TypeError)
   \<and> (\<not> hasOwnProperty ob ''hasOwnProperty'' \<and> \<not> hasOwnProperty ob ''userData'' \<longrightarrow>
        (\<exists>this ud. GameModel_constructor tcompat ob = Inr this
           \<and> get_prop this ''userData'' = JObj ud
           \<and> Object_keys ud = Object_keys GameModel_userData_defaults
           \<and> (\<forall>k \<in> set (Object_keys ud).
                 get_prop ud k =
                   (if hasOwnProperty ob k
                       \<and> tcompat (get_prop ob k) (get_prop GameModel_userData_defaults k)
                    then get_prop ob k
                    else get_prop GameModel_userData_defaults k))))"
proof (intro conjI impI)
  assume "hasOwnProperty ob ''hasOwnProperty''"
  then show "GameModel_constructor tcompat ob = Inl TypeError" by (rule constructor_throws)
next
  assume a: "\<not> hasOwnProperty ob ''hasOwnProperty'' \<and> \<not> hasOwnProperty ob ''userData''"
  show "\<exists>this ud. GameModel_constructor tcompat ob = Inr this
           \<and> get_prop this ''userData'' = JObj ud
           \<and> Object_keys ud = Object_keys GameModel_userData_defaults
           \<and> (\<forall>k \<in> set (Object_keys ud).
                 get_prop ud k =
                   (if hasOwnProperty ob k
                       \<and> tcompat (get_prop ob k) (get_prop GameModel_userData_defaults k)
                    then get_prop ob k
                    else get_prop GameModel_userData_defaults k))"
  proof (intro exI conjI ballI)
    show "GameModel_constructor tcompat ob = Inr (built_instance tcompat ob)"
      using a by (simp add: constructor_returns)
    show "get_prop (built_instance tcompat ob) ''userData''
            = JObj (migrated_fields tcompat ob GameModel_userData_defaults)"
      using a by (simp add: built_get)
    show "Object_keys (migrated_fields tcompat ob GameModel_userData_defaults)
            = Object_keys GameModel_userData_defaults"
      by (rule keys_migrated_fields)
    fix k assume "k \<in> set (Object_keys (migrated_fields tcompat ob GameModel_userData_defaults))"
    then have "hasOwnProperty GameModel_userData_defaults k"
      by (simp add: keys_migrated_fields hasOwnProperty_keys)
    then show "get_prop (migrated_fields tcompat ob GameModel_userData_defaults) k =
        (if hasOwnProperty ob k \<and> tcompat (get_prop ob k) (get_prop GameModel_userData_defaults k)
         then get_prop ob k else get_prop GameModel_userData_defaults k)"
      by (simp add: get_prop_migrated_fields migrated_value_def)
  qed
qed

theorem legacy_input_fills_userData_witness:
  "\<not> hasOwnProperty zelda_input ''hasOwnProperty''
   \<and> \<not> hasOwnProperty zelda_input ''userData''
   \<and> (\<exists>this ud. GameModel_constructor sameKind zelda_input = Inr this
           \<and> get_prop this ''userData'' = JObj ud
           \<and> Object_keys ud = Object_keys GameModel_userData_defaults
           \<and> (\<forall>k \<in> set (Object_keys ud).
                 get_prop ud k =
                   (if hasOwnProperty zelda_input k
                       \<and> sameKind (get_prop zelda_input k) (get_prop GameModel_userData_defaults k)
                    then get_prop zelda_input k
                    else get_prop GameModel_userData_defaults k)))
   \<and> hasOwnProperty [(''hasOwnProperty'', JNum 1)] ''hasOwnProperty''
   \<and> GameModel_constructor sameKind [(''hasOwnProperty'', JNum 1)] = Inl TypeError"
proof -
  have h: "\<not> hasOwnProperty zelda_input ''hasOwnProperty''" by code_simp
  have u: "\<not> hasOwnProperty zelda_input ''userData''" by code_simp
  have w: "hasOwnProperty [(''hasOwnProperty'', JNum 1)] ''hasOwnProperty''" by code_simp
  have hu: "\<not> hasOwnProperty zelda_input ''hasOwnProperty''
            \<and> \<not> hasOwnProperty zelda_input ''userData''"
    using h u by (rule conjI)
  note e = legacy_input_fills_userData [of zelda_input sameKind, THEN conjunct2, THEN mp, OF hu]
  note x = legacy_input_fills_userData
      [of "[(''hasOwnProperty'', JNum 1)]" sameKind, THEN conjunct1, THEN mp, OF w]
  from h u e w x show ?thesis by (intro conjI)
qed

text \<open>
  The claim C2 as stated says that no key of the export payload holds \<^verbatim>\<open>undefined\<close>.
  The constructor builds, from the empty input, the defaults with the type set; the
  payload of this instance has the key \<^verbatim>\<open>personalStatus\<close>, and it holds
  \<^verbatim>\<open>undefined\<close>.
\<close>

theorem export_undefined_counterexample:
  "GameModel_constructor sameKind [] = Inr (set_prop ''type'' (JStr ''game'') GameModel_defaults)
   \<and> hasOwnProperty
        (GameModel_toMetaDataObject ''mediaDB'' (set_prop ''type'' (JStr ''game'') GameModel_defaults))
        ''personalStatus''
   \<and> get_prop
        (GameModel_toMetaDataObject ''mediaDB'' (set_prop ''type'' (JStr ''game'') GameModel_defaults))
        ''personalStatus'' = JUndefined"
  by code_simp

text \<open>
  Claim C2, amended. The constructor throws \<^verbatim>\<open>TypeError\<close> on an input with an own
  property \<^verbatim>\<open>hasOwnProperty\<close>. For every other input object, the constructor returns
  an instance, and the export payload of that instance has every top-level field of the
  default instance other than \<^verbatim>\<open>userData\<close>, and the key \<^verbatim>\<open>tags\<close>. When the input
  has no \<^verbatim>\<open>userData\<close> key either, the payload has exactly the keys of the payload of
  the instance built from the empty input, in the same order, and each key holds either
  what it holds in that payload or the value the input gives under that key.
\<close>

theorem export_has_default_fields:
  "(hasOwnProperty ob ''hasOwnProperty'' \<longrightarrow> GameModel_constructor tcompat ob = Inl TypeError)
   \<and> (\<not> hasOwnProperty ob ''hasOwnProperty'' \<longrightarrow>
        (\<exists>this empty.
           GameModel_constructor tcompat ob = Inr this
           \<and> GameModel_constructor tcompat [] = Inr empty
           \<and> set (Object_keys (getWithOutUserData GameModel_defaults))
                \<subseteq> set (Object_keys (GameModel_toMetaDataObject mediaDbTag this))
           \<and> ''tags'' \<in> set (Object_keys (GameModel_toMetaDataObject mediaDbTag this))
           \<and> (\<not> hasOwnProperty ob ''userData'' \<longrightarrow>
                Object_keys (GameModel_toMetaDataObject mediaDbTag this)
                  = Object_keys (GameModel_toMetaDataObject mediaDbTag empty)
                \<and> (\<forall>k. get_prop (GameModel_toMetaDataObject mediaDbTag this) k
                           = get_prop (GameModel_toMetaDataObject mediaDbTag empty) k
                       \<or> hasOwnProperty ob k
                         \<and> get_prop (GameModel_toMetaDataObject mediaDbTag this) k
                             = get_prop ob k))))"
proof (intro conjI impI)
  assume "hasOwnProperty ob ''hasOwnProperty''"
  then show "GameModel_constructor tcompat ob = Inl TypeError" by (rule constructor_throws)
next
  assume a: "\<not> hasOwnProperty ob ''hasOwnProperty''"
  let ?r = "built_instance tcompat ob"
  let ?e = "built_instance tcompat []"
  have 1: "GameModel_constructor tcompat ob = Inr ?r"
    using a by (rule constructor_returns)
  have 2: "GameModel_constructor tcompat [] = Inr ?e"
    by (rule constructor_returns) (rule hasOwnProperty_Nil)
  have 3: "set (Object_keys (getWithOutUserData GameModel_defaults))
             \<subseteq> set (Object_keys (GameModel_toMetaDataObject mediaDbTag ?r))"
    by (auto simp: GameModel_toMetaDataObject_def keys_toMetaDataObject built_keys
        getWithOutUserData_def structuredClone_def keys_delete_prop)
  have 4: "''tags'' \<in> set (Object_keys (GameModel_toMetaDataObject mediaDbTag ?r))"
    by (simp add: GameModel_toMetaDataObject_def keys_toMetaDataObject)
  have 5: "Object_keys (GameModel_toMetaDataObject mediaDbTag ?r)
             = Object_keys (GameModel_toMetaDataObject mediaDbTag ?e)"
    if legacy: "\<not> hasOwnProperty ob ''userData''"
    unfolding GameModel_toMetaDataObject_def
    by (rule keys_toMetaDataObject_cong)
       (simp_all add: built_keys userData_built_legacy [OF legacy]
          userData_built_legacy [OF hasOwnProperty_Nil] keys_migrated_fields)
  have 6: "get_prop (GameModel_toMetaDataObject mediaDbTag ?r) k
             = get_prop (GameModel_toMetaDataObject mediaDbTag ?e) k
           \<or> hasOwnProperty ob k
             \<and> get_prop (GameModel_toMetaDataObject mediaDbTag ?r) k = get_prop ob k"
    if legacy: "\<not> hasOwnProperty ob ''userData''" for k
    unfolding get_prop_export_legacy [OF legacy] get_prop_export_legacy [OF hasOwnProperty_Nil]
    by (simp add: built_get migrated_value_def hasOwnProperty_Nil)
  from 5 6 have 7: "\<not> hasOwnProperty ob ''userData'' \<longrightarrow>
        Object_keys (GameModel_toMetaDataObject mediaDbTag ?r)
          = Object_keys (GameModel_toMetaDataObject mediaDbTag ?e)
        \<and> (\<forall>k. get_prop (GameModel_toMetaDataObject mediaDbTag ?r) k
                   = get_prop (GameModel_toMetaDataObject mediaDbTag ?e) k
               \<or> hasOwnProperty ob k
                 \<and> get_prop (GameModel_toMetaDataObject mediaDbTag ?r) k = get_prop ob k)"
    by blast
  from 1 2 3 4 7
  show "\<exists>this empty.
           GameModel_constructor tcompat ob = Inr this
           \<and> GameModel_constructor tcompat [] = Inr empty
           \<and> set (Object_keys (getWithOutUserData GameModel_defaults))
                \<subseteq> set (Object_keys (GameModel_toMetaDataObject mediaDbTag this))
           \<and> ''tags'' \<in> set (Object_keys (GameModel_toMetaDataObject mediaDbTag this))
           \<and> (\<not> hasOwnProperty ob ''userData'' \<longrightarrow>
                Object_keys (GameModel_toMetaDataObject mediaDbTag this)
                  = Object_keys (GameModel_toMetaDataObject mediaDbTag empty)
                \<and> (\<forall>k. get_prop (GameModel_toMetaDataObject mediaDbTag this) k
                           = get_prop (GameModel_toMetaDataObject mediaDbTag empty) k
                       \<or> hasOwnProperty ob k
                         \<and> get_prop (GameModel_toMetaDataObject mediaDbTag this) k
                             = get_prop ob k))"
    by (intro exI conjI)
qed

theorem export_has_default_fields_witness:
  "\<not> hasOwnProperty zelda_input ''hasOwnProperty''
   \<and> \<not> hasOwnProperty zelda_input ''userData''
   \<and> GameModel_constructor sameKind zelda_input = Inr zelda_game
   \<and> ''tags'' \<in> set (Object_keys (GameModel_toMetaDataObject ''mediaDB'' zelda_game))
   \<and> Object_keys (GameModel_toMetaDataObject ''mediaDB'' zelda_game)
       = Object_keys (GameModel_toMetaDataObject ''mediaDB''
                        (set_prop ''type'' (JStr ''game'') GameModel_defaults))"
proof -
  have h: "\<not> hasOwnProperty zelda_input ''hasOwnProperty''" by code_simp
  have u: "\<not> hasOwnProperty zelda_input ''userData''" by code_simp
  have e: "GameModel_constructor sameKind [] = Inr (set_prop ''type'' (JStr ''game'') GameModel_defaults)"
    by code_simp
  note t = export_has_default_fields
      [of zelda_input sameKind "''mediaDB''", THEN conjunct2, THEN mp, OF h]
  from t obtain r e0 where
        1: "GameModel_constructor sameKind zelda_input = Inr r"
    and 2: "GameModel_constructor sameKind [] = Inr e0"
    and 3: "''tags'' \<in> set (Object_keys (GameModel_toMetaDataObject ''mediaDB'' r))"
    and 4: "\<not> hasOwnProperty zelda_input ''userData'' \<longrightarrow>
              Object_keys (GameModel_toMetaDataObject ''mediaDB'' r)
                = Object_keys (GameModel_toMetaDataObject ''mediaDB'' e0)
              \<and> (\<forall>k. get_prop (GameModel_toMetaDataObject ''mediaDB'' r) k
                         = get_prop (GameModel_toMetaDataObject ''mediaDB'' e0) k
                     \<or> hasOwnProperty zelda_input k
                       \<and> get_prop (GameModel_toMetaDataObject ''mediaDB'' r) k
                           = get_prop zelda_input k)"
    by (elim exE conjE) (rule that)
  from 1 zelda_game_built have r: "r = zelda_game" by simp
  from 2 e have e0: "e0 = set_prop ''type'' (JStr ''game'') GameModel_defaults" by simp
  from 3 have tags: "''tags'' \<in> set (Object_keys (GameModel_toMetaDataObject ''mediaDB'' zelda_game))"
    unfolding r .
  from 4 u have "Object_keys (GameModel_toMetaDataObject ''mediaDB'' r)
                = Object_keys (GameModel_toMetaDataObject ''mediaDB'' e0)"
    by (rule mp [THEN conjunct1])
  then have keys: "Object_keys (GameModel_toMetaDataObject ''mediaDB'' zelda_game)
       = Object_keys (GameModel_toMetaDataObject ''mediaDB''
                        (set_prop ''type'' (JStr ''game'') GameModel_defaults))"
    unfolding r e0 .
  from h u zelda_game_built tags keys show ?thesis by (intro conjI)
qed


section \<open>The summary\<close>

text \<open>
  The claim C9 as stated names the field \<^verbatim>\<open>title\<close>. The instance built from a title
  \<^verbatim>\<open>Zelda\<close>, an English title \<^verbatim>\<open>Hyrule\<close> and the year \<^verbatim>\<open>1986\<close> has another
  summary than \<^verbatim>\<open>Zelda (1986)\<close>.
\<close>

theorem getSummary_title_counterexample:
  "GameModel_constructor sameKind zelda_input = Inr zelda_game
   \<and> GameModel_getSummary zelda_game
      \<noteq> ToString (get_prop zelda_game ''title'') @ '' (''
          @ ToString (get_prop zelda_game ''year'') @ '')''"
  by code_simp

text \<open>
  Claim C9, amended. For every instance whose \<^verbatim>\<open>englishTitle\<close> and \<^verbatim>\<open>year\<close> are
  strings, \<^verbatim>\<open>getSummary\<close> returns the English title, a space, and the year in
  parentheses. The field \<^verbatim>\<open>title\<close> plays no part: whatever is written to it, the
  summary stays the same.
\<close>

theorem getSummary_englishTitle:
  assumes "get_prop this ''englishTitle'' = JStr e" and "get_prop this ''year'' = JStr y"
  shows "GameModel_getSummary this = e @ '' ('' @ y @ '')''
         \<and> GameModel_getSummary (set_prop ''title'' t this) = e @ '' ('' @ y @ '')''"
  using assms by (simp add: GameModel_getSummary_def get_prop_set_prop)

theorem getSummary_englishTitle_witness:
  "GameModel_constructor sameKind zelda_input = Inr zelda_game
   \<and> get_prop zelda_game ''englishTitle'' = JStr ''Hyrule''
   \<and> get_prop zelda_game ''year'' = JStr ''1986''
   \<and> GameModel_getSummary zelda_game = ''Hyrule (1986)''"
proof -
  have e: "get_prop zelda_game ''englishTitle'' = JStr ''Hyrule''" by code_simp
  have y: "get_prop zelda_game ''year'' = JStr ''1986''" by code_simp
  from getSummary_englishTitle [OF e y] have "GameModel_getSummary zelda_game = ''Hyrule (1986)''"
    by simp
  with zelda_game_built e y show ?thesis by (intro conjI)
qed


section \<open>The default property mappings\<close>

text \<open>The two loops of \<^verbatim>\<open>getDefaultSettings\<close> append; their results are maps.\<close>

lemma push_mappings_eq:
  "push_mappings ks m =
     m\<lparr>properties := properties m @
         map (\<lambda>k. new_PropertyMapping k [] Default (k \<in> set lockedPropertyMappings)) ks\<rparr>"
  by (induction ks arbitrary: m) simp_all

lemma new_PropertyMapping_spec:
  "new_PropertyMapping k [] Default (k \<in> set lockedPropertyMappings) = spec_default_mapping k"
  by (auto simp: new_PropertyMapping_def spec_default_mapping_def lockedPropertyMappings_def)

lemma build_models_eq:
  "build_models createModel ts models =
     models @ map (\<lambda>mediaType.
        \<lparr>type = mediaType,
         properties = map spec_default_mapping
           (Object_keys (toMetaDataObject (fst (createModel [] mediaType))
                                          (snd (createModel [] mediaType))))\<rparr>) ts"
  by (induction ts arbitrary: models)
     (simp_all add: Let_def push_mappings_eq new_PropertyMapping_spec new_PropertyMappingModel_def)

lemma key_spec_default_mapping: "map (key \<circ> spec_default_mapping) ks = ks"
  by (induction ks) (simp_all add: spec_default_mapping_def)

text \<open>
  Claim C5. For every media kind of \<^verbatim>\<open>MEDIA_TYPES\<close>, in their order, the settings
  built by \<^verbatim>\<open>getDefaultSettings\<close> hold one model of that kind, and its mappings are
  the default mappings of the spec (mapping \<^verbatim>\<open>Default\<close>, empty \<^verbatim>\<open>newKey\<close>, locked
  exactly for \<^verbatim>\<open>type\<close>, \<^verbatim>\<open>id\<close>, \<^verbatim>\<open>dataSource\<close>) of the keys of the metadata
  object of the kind's default-constructed instance, in enumeration order. No key has two
  mappings.
\<close>

theorem default_property_mappings:
  "propertyMappingModels (getDefaultSettings DEFAULT_SETTINGS createModel MEDIA_TYPES)
     = map (\<lambda>mediaType.
        \<lparr>type = mediaType,
         properties = map spec_default_mapping
           (Object_keys (toMetaDataObject (fst (createModel [] mediaType))
                                          (snd (createModel [] mediaType))))\<rparr>) MEDIA_TYPES
   \<and> list_all (\<lambda>m. distinct (map key (properties m)))
        (propertyMappingModels (getDefaultSettings DEFAULT_SETTINGS createModel MEDIA_TYPES))"
  by (simp add: getDefaultSettings_def build_models_eq list_all_iff key_spec_default_mapping
      distinct_toMetaDataObject)

text \<open>
  For the game kind, with a factory that calls the constructor (which returns on the
  empty object), the mappings are these, with their locks.
\<close>

lemma default_mappings_of_game:
  "map (\<lambda>m. map (\<lambda>p. (key p, locked p)) (properties m))
     (build_models
        (\<lambda>ob t. (GameModel_getTags ''mediaDB'',
                  case GameModel_constructor sameKind ob of Inr this \<Rightarrow> this | Inl e \<Rightarrow> []))
        [Game] [])
   = [[(''type'', True), (''subType'', False), (''title'', False), (''englishTitle'', False),
       (''year'', False), (''dataSource'', True), (''url'', False), (''id'', True),
       (''apiTags'', False), (''genres'', False), (''personalRating'', False),
       (''personalStatus'', False), (''personalTags'', False), (''tags'', False),
       (''onlineRating'', False), (''platforms'', False), (''developers'', False),
       (''publishers'', False), (''music'', False), (''image'', False), (''website'', False),
       (''description'', False), (''released'', False), (''releaseDate'', False),
       (''played'', False)]]"
  by code_simp


section \<open>Unknown media kinds in \<^verbatim>\<open>getById\<close>\<close>

text \<open>
  The claim C7 as stated says that no unknown discriminant is defaulted to a variant. In
  the later version of \<^verbatim>\<open>getById\<close>, the subject \<^verbatim>\<open>{id: 7, type: 5}\<close>, whose
  Bangumi type is none of 1, 2, 3, 4, 6, is answered with a series model.
\<close>

theorem getById_unknown_counterexample:
  "member_of (JObj [(''id'', JNum 7), (''type'', JNum 5)]) ''type''
     \<notin> {JNum 1, JNum 2, JNum 3, JNum 4, JNum 6}
   \<and> getById_later no_valid_date 200 (JObj [(''id'', JNum 7), (''type'', JNum 5)]) = Inr Series"
  by code_simp

lemma construct_model_unsupported:
  "t \<in> {ComicManga, BoardGame, Wiki} \<Longrightarrow> construct_model infobox t = Inl (UnsupportedMediaType t)"
  by auto

lemma truthy_member: "truthy (member_of v k) \<Longrightarrow> truthy v"
  by (cases v) (simp_all add: member_of_def)

lemma truthy_not_nullish: "truthy v \<Longrightarrow> \<not> nullish v"
  by (cases v) (simp_all add: nullish_def)

lemma nullish_member: "nullish v \<Longrightarrow> member_of v k = JUndefined"
  by (auto simp: nullish_def member_of_def)

lemma bangumi_type_unknown:
  assumes "member_of result ''type'' \<notin> {JNum 1, JNum 2, JNum 3, JNum 4, JNum 6}"
  shows "bangumi_type result =
           Inl (if nullish result \<or> ToString_throws (member_of result ''type'')
                then Thrown TypeError
                else UnknownMediaType (member_of result ''type''))"
  using assms by (simp add: bangumi_type_def Let_def)

lemma bangumi_type_error:
  assumes "member_of result ''type'' \<notin> {JNum 1, JNum 2, JNum 4}"
  shows "isl (bangumi_type result)"
  using assms by (simp add: bangumi_type_def Let_def)

lemma determine_type_unknown:
  assumes "member_of subjectData ''type'' \<notin> {JNum 1, JNum 2, JNum 3, JNum 4, JNum 6}"
  shows "determine_type subjectData =
           (if ToString_throws (member_of subjectData ''type'') then Inl TypeError
            else Inr (Series, JNull))"
  using assms by (simp add: determine_type_def Let_def)

text \<open>
  Claim C7, amended. In \<^verbatim>\<open>BangumiAPI.ts\<close>, \<^verbatim>\<open>getById\<close> ends in an error for every
  discriminant other than 1, 2 and 4; for an unknown one (none of 1, 2, 3, 4, 6) the
  error is the one that names the unknown media type, unless the body is \<^verbatim>\<open>null\<close> or
  the discriminant cannot be converted to a string for the message, where it is a
  \<^verbatim>\<open>TypeError\<close>. In the later version, \<^verbatim>\<open>getById\<close> ends in an error whenever the
  media kind it has determined has no case in the switch over the constructors (comic,
  board game, wiki), while a subject with an identifier and an unknown Bangumi type is
  taken for a series: \<^verbatim>\<open>getById\<close> ends in an error where the conversion of the
  discriminant for the log or the extraction of the common fields (date, tags, infobox)
  throws, and answers with a series model otherwise.
\<close>

theorem getById_unknown_kind:
  "(member_of result ''type'' \<notin> {JNum 1, JNum 2, JNum 4} \<longrightarrow> isl (getById status result))
   \<and> (status = 200 \<and> member_of result ''type'' \<notin> {JNum 1, JNum 2, JNum 3, JNum 4, JNum 6} \<longrightarrow>
        getById status result =
          Inl (if nullish result \<or> ToString_throws (member_of result ''type'')
               then Thrown TypeError
               else UnknownMediaType (member_of result ''type'')))
   \<and> (determine_type subjectData = Inr (t, st) \<and> t \<in> {ComicManga, BoardGame, Wiki} \<longrightarrow>
        isl (getById_later date_error status subjectData))
   \<and> (status = 200 \<and> truthy (member_of subjectData ''id'')
        \<and> member_of subjectData ''type'' \<notin> {JNum 1, JNum 2, JNum 3, JNum 4, JNum 6} \<longrightarrow>
        getById_later date_error status subjectData =
          (if ToString_throws (member_of subjectData ''type'') then Inl (Thrown TypeError)
           else (case common_fields_error date_error subjectData of
                   Some e \<Rightarrow> Inl (Thrown e)
                 | None \<Rightarrow> Inr Series)))"
proof (intro conjI impI)
  assume "member_of result ''type'' \<notin> {JNum 1, JNum 2, JNum 4}"
  then have "isl (bangumi_type result)" by (rule bangumi_type_error)
  then show "isl (getById status result)"
    by (cases "bangumi_type result") (simp_all add: getById_def)
next
  assume a: "status = 200 \<and> member_of result ''type'' \<notin> {JNum 1, JNum 2, JNum 3, JNum 4, JNum 6}"
  then have "member_of result ''type'' \<notin> {JNum 1, JNum 2, JNum 3, JNum 4, JNum 6}" by (rule conjunct2)
  note b = bangumi_type_unknown [OF this]
  from a have "status = 200" by (rule conjunct1)
  then show "getById status result =
          Inl (if nullish result \<or> ToString_throws (member_of result ''type'')
               then Thrown TypeError
               else UnknownMediaType (member_of result ''type''))"
    by (simp add: getById_def b)
next
  assume a: "determine_type subjectData = Inr (t, st) \<and> t \<in> {ComicManga, BoardGame, Wiki}"
  then have d: "determine_type subjectData = Inr (t, st)" by (rule conjunct1)
  from a have "t \<in> {ComicManga, BoardGame, Wiki}" by (rule conjunct2)
  note c = construct_model_unsupported [OF this]
  show "isl (getById_later date_error status subjectData)"
    by (simp add: getById_later_def d c split: option.split)
next
  assume a: "status = 200 \<and> truthy (member_of subjectData ''id'')
        \<and> member_of subjectData ''type'' \<notin> {JNum 1, JNum 2, JNum 3, JNum 4, JNum 6}"
  then have s: "status = 200" and i: "truthy (member_of subjectData ''id'')"
    and u: "member_of subjectData ''type'' \<notin> {JNum 1, JNum 2, JNum 3, JNum 4, JNum 6}"
    by simp_all
  from i have v: "truthy subjectData" by (rule truthy_member)
  note d = determine_type_unknown [OF u]
  show "getById_later date_error status subjectData =
          (if ToString_throws (member_of subjectData ''type'') then Inl (Thrown TypeError)
           else (case common_fields_error date_error subjectData of
                   Some e \<Rightarrow> Inl (Thrown e)
                 | None \<Rightarrow> Inr Series))"
    by (simp add: getById_later_def s i v d new_model_def split: option.split)
qed

theorem getById_unknown_kind_witness:
  "member_of (JObj [(''id'', JNum 7), (''type'', JNum 9)]) ''type'' \<notin> {JNum 1, JNum 2, JNum 4}
   \<and> isl (getById 200 (JObj [(''id'', JNum 7), (''type'', JNum 9)]))
   \<and> member_of (JObj [(''id'', JNum 7), (''type'', JNum 9)]) ''type''
        \<notin> {JNum 1, JNum 2, JNum 3, JNum 4, JNum 6}
   \<and> getById 200 (JObj [(''id'', JNum 7), (''type'', JNum 9)]) = Inl (UnknownMediaType (JNum 9))
   \<and> determine_type (JObj [(''id'', JNum 7), (''type'', JNum 4), (''platform'', JStr zh_boardgame)])
       = Inr (BoardGame, JNull)
   \<and> isl (getById_later no_valid_date 200
        (JObj [(''id'', JNum 7), (''type'', JNum 4), (''platform'', JStr zh_boardgame)]))
   \<and> truthy (member_of (JObj [(''id'', JNum 7), (''type'', JNum 9)]) ''id'')
   \<and> getById_later no_valid_date 200 (JObj [(''id'', JNum 7), (''type'', JNum 9)]) = Inr Series
   \<and> getById_later no_valid_date 200
        (JObj [(''id'', JNum 7), (''type'', JNum 9), (''date'', JStr ''soon'')])
       = Inl (Thrown RangeError)"
proof -
  let ?R = "JObj [(''id'', JNum 7), (''type'', JNum 9)]"
  let ?B = "JObj [(''id'', JNum 7), (''type'', JNum 4), (''platform'', JStr zh_boardgame)]"
  let ?D = "JObj [(''id'', JNum 7), (''type'', JNum 9), (''date'', JStr ''soon'')]"
  have a: "member_of ?R ''type'' \<notin> {JNum 1, JNum 2, JNum 4}" by code_simp
  have a': "member_of ?R ''type'' \<notin> {JNum 1, JNum 2, JNum 3, JNum 4, JNum 6}" by code_simp
  have b: "determine_type ?B = Inr (BoardGame, JNull)" by code_simp
  have b': "BoardGame \<in> {ComicManga, BoardGame, Wiki}" by simp
  have i: "truthy (member_of ?R ''id'')" by code_simp
  have i': "truthy (member_of ?D ''id'')" by code_simp
  have a'': "member_of ?D ''type'' \<notin> {JNum 1, JNum 2, JNum 3, JNum 4, JNum 6}" by code_simp
  have e1: "Inl (if nullish ?R \<or> ToString_throws (member_of ?R ''type'')
               then Thrown TypeError
               else UnknownMediaType (member_of ?R ''type'')) = (Inl (UnknownMediaType (JNum 9)) :: api_error + MediaType)"
    by code_simp
  have e2: "(if ToString_throws (member_of ?R ''type'') then Inl (Thrown TypeError)
           else (case common_fields_error no_valid_date ?R of
                   Some e \<Rightarrow> Inl (Thrown e)
                 | None \<Rightarrow> Inr Series)) = Inr Series"
    by code_simp
  have e3: "(if ToString_throws (member_of ?D ''type'') then Inl (Thrown TypeError)
           else (case common_fields_error no_valid_date ?D of
                   Some e \<Rightarrow> Inl (Thrown e)
                 | None \<Rightarrow> Inr Series)) = Inl (Thrown RangeError)"
    by code_simp
  note t = getById_unknown_kind [of ?R 200 ?B BoardGame JNull no_valid_date]
  note t1 = t [THEN conjunct1, THEN mp, OF a]
  note t2 = t [THEN conjunct2, THEN conjunct1, THEN mp, OF conjI [OF refl a'], unfolded e1]
  note t3 = t [THEN conjunct2, THEN conjunct2, THEN conjunct1, THEN mp, OF conjI [OF b b']]
  note t4 = getById_unknown_kind [of ?R 200 ?R BoardGame JNull no_valid_date,
      THEN conjunct2, THEN conjunct2, THEN conjunct2, THEN mp, OF conjI [OF refl conjI [OF i a']],
      unfolded e2]
  note t5 = getById_unknown_kind [of ?R 200 ?D BoardGame JNull no_valid_date,
      THEN conjunct2, THEN conjunct2, THEN conjunct2, THEN mp, OF conjI [OF refl conjI [OF i' a'']],
      unfolded e3]
  from a t1 a' t2 b t3 i t4 t5 show ?thesis by (intro conjI)
qed


section \<open>The copy in the store\<close>

subsection \<open>What the copying keeps\<close>

lemma val_within_mono: "val_within lo hi v \<Longrightarrow> hi \<le> hi' \<Longrightarrow> val_within lo hi' v"
  by (cases v) auto

lemma cell_within_mono: "cell_within lo hi c \<Longrightarrow> hi \<le> hi' \<Longrightarrow> cell_within lo hi' c"
  by (auto simp: cell_within_def list_all_iff intro: val_within_mono)

lemma copied_mono: "copied lo hi v v' \<Longrightarrow> hi \<le> hi' \<Longrightarrow> copied lo hi' v v'"
  by (auto simp: copied_def intro: val_within_mono)

lemma copied_within: "copied lo hi v v' \<Longrightarrow> val_within lo hi v'"
  by (cases v; cases v') (auto simp: copied_def)

lemma clone_post_refl: "clone_pre L s m \<Longrightarrow> clone_post L s m s m"
  by (simp add: clone_post_def)

lemma clone_post_trans:
  assumes a: "clone_post L s m s1 m1" and b: "clone_post L s1 m1 s2 m2"
  shows "clone_post L s m s2 m2"
proof -
  from a have a1: "length s \<le> length s1" and a2: "\<forall>b<L. s1 ! b = s ! b"
    and a3: "dom (map_of m) \<subseteq> dom (map_of m1)" by (simp_all add: clone_post_def)
  from b have b1: "length s1 \<le> length s2" and b2: "\<forall>b<L. s2 ! b = s1 ! b"
    and b3: "dom (map_of m1) \<subseteq> dom (map_of m2)" and b4: "clone_pre L s2 m2"
    by (simp_all add: clone_post_def)
  from a3 b3 have "dom (map_of m) \<subseteq> dom (map_of m2)" by (rule subset_trans)
  moreover from a1 b1 have "length s \<le> length s2" by simp
  moreover from a2 b2 have "\<forall>b<L. s2 ! b = s ! b" by simp
  ultimately show ?thesis using b4 by (simp add: clone_post_def)
qed

lemma clone_all_good:
  assumes f: "clone_good L f"
  shows "clone_pre L s m \<Longrightarrow> clone_all f s m vs = Some (s', m', vs') \<Longrightarrow>
         clone_post L s m s' m' \<and> list_all2 (copied L (length s')) vs vs'"
proof (induction vs arbitrary: s m s' m' vs')
  case Nil
  then show ?case by (simp add: clone_post_refl)
next
  case (Cons v vs)
  from Cons.prems(2) obtain s1 m1 v1 s2 m2 vs2 where
    1: "f s m v = Some (s1, m1, v1)" and 2: "clone_all f s1 m1 vs = Some (s2, m2, vs2)"
    and r: "s' = s2" "m' = m2" "vs' = v1 # vs2"
    by (auto split: option.splits)
  from f Cons.prems(1) 1 have p1: "clone_post L s m s1 m1" and c1: "copied L (length s1) v v1"
    by (auto simp: clone_good_def)
  then have pre1: "clone_pre L s1 m1" by (simp add: clone_post_def)
  from Cons.IH [OF pre1 2] have p2: "clone_post L s1 m1 s2 m2"
    and c2: "list_all2 (copied L (length s2)) vs vs2" by auto
  have "length s1 \<le> length s2" using p2 by (simp add: clone_post_def)
  then have "copied L (length s2) v v1" using c1 by (rule copied_mono [rotated])
  then show ?case using clone_post_trans [OF p1 p2] c2 by (simp add: r)
qed

lemma cell_values_with_values:
  "set (cell_values (with_values c vs)) \<subseteq> set vs"
  by (cases c) (auto simp: set_zip dest: in_set_zipE)

lemma cell_within_with_values:
  "list_all (val_within lo hi) vs \<Longrightarrow> cell_within lo hi (with_values c vs)"
  using cell_values_with_values [of c vs] by (auto simp: cell_within_def list_all_iff)

lemma list_all2_copied_within:
  "list_all2 (copied lo hi) vs vs' \<Longrightarrow> list_all (val_within lo hi) vs'"
  by (induction rule: list_all2_induct) (auto intro: copied_within)


lemma clone_pre_alloc:
  assumes "clone_pre L s m"
  shows "clone_pre L (s @ [CArr []]) ((a, length s) # m)"
proof -
  from assms have L: "L \<le> length s" and fc: "fresh_closed L s" and mf: "memo_fresh L s m"
    by (simp_all add: clone_pre_def)
  have "fresh_closed L (s @ [CArr []])"
    unfolding fresh_closed_def
  proof (intro allI impI)
    fix b assume b: "L \<le> b \<and> b < length (s @ [CArr []])"
    show "cell_within L (length (s @ [CArr []])) ((s @ [CArr []]) ! b)"
    proof (cases "b < length s")
      case True
      then have "cell_within L (length s) (s ! b)" using fc b by (simp add: fresh_closed_def)
      then show ?thesis using True by (simp add: nth_append cell_within_mono)
    next
      case False
      then have "b = length s" using b by simp
      then show ?thesis by (simp add: cell_within_def)
    qed
  qed
  moreover have "memo_fresh L (s @ [CArr []]) ((a, length s) # m)"
    using mf L by (auto simp: memo_fresh_def split: if_splits) (fastforce)+
  ultimately show ?thesis using L by (simp add: clone_pre_def)
qed

lemma clone_pre_write:
  assumes pre: "clone_pre L s m" and a: "L \<le> a" "a < length s"
      and c: "cell_within L (length s) c"
  shows "clone_pre L (s[a := c]) m"
proof -
  from pre have L: "L \<le> length s" and fc: "fresh_closed L s" and mf: "memo_fresh L s m"
    by (simp_all add: clone_pre_def)
  have "fresh_closed L (s[a := c])"
    using fc c a by (auto simp: fresh_closed_def nth_list_update)
  moreover have "memo_fresh L (s[a := c]) m" using mf by (simp add: memo_fresh_def)
  ultimately show ?thesis using L by (simp add: clone_pre_def)
qed

lemma clone_good: "clone_good L (clone n)"
proof (induction n)
  case 0
  show ?case by (simp add: clone_good_def)
next
  case (Suc n)
  show ?case
    unfolding clone_good_def
  proof (intro allI impI)
    fix s m v s' m' v'
    assume pre: "clone_pre L s m" and run: "clone (Suc n) s m v = Some (s', m', v')"
    show "clone_post L s m s' m' \<and> copied L (length s') v v'"
    proof (cases v)
      case (SRef a)
      show ?thesis
      proof (cases "map_of m a")
        case (Some a')
        then have r: "s' = s" "m' = m" "v' = SRef a'" using run SRef by simp_all
        from pre Some have "L \<le> a' \<and> a' < length s"
          by (simp add: clone_pre_def memo_fresh_def)
        then show ?thesis using pre by (simp add: r SRef clone_post_refl copied_def)
      next
        case None
        let ?s0 = "s @ [CArr []]" and ?m0 = "(a, length s) # m"
        from run SRef None have a: "a < length s" by (simp split: if_splits)
        from run SRef None a obtain s1 m1 vs1 where
          all: "clone_all (clone n) ?s0 ?m0 (cell_values (s ! a)) = Some (s1, m1, vs1)"
          and r: "s' = s1[length s := with_values (s ! a) vs1]" "m' = m1" "v' = SRef (length s)"
          by (auto split: option.splits)
        from pre have L: "L \<le> length s" by (simp add: clone_pre_def)
        have pre0: "clone_pre L ?s0 ?m0" using pre by (rule clone_pre_alloc)
        from clone_all_good [OF Suc.IH pre0 all]
        have post1: "clone_post L ?s0 ?m0 s1 m1"
          and cp: "list_all2 (copied L (length s1)) (cell_values (s ! a)) vs1" by auto
        from post1 have len: "length ?s0 \<le> length s1" and pre1: "clone_pre L s1 m1"
          and fr: "\<forall>b<L. s1 ! b = ?s0 ! b" and dm: "dom (map_of ?m0) \<subseteq> dom (map_of m1)"
          by (simp_all add: clone_post_def)
        have lt: "length s < length s1" using len by simp
        have cw: "cell_within L (length s1) (with_values (s ! a) vs1)"
          using cp by (intro cell_within_with_values list_all2_copied_within)
        have pre': "clone_pre L s' m'"
          unfolding r using pre1 L lt cw by (rule clone_pre_write)
        have fr': "\<forall>b<L. s' ! b = s ! b"
          using fr L by (auto simp: r nth_append)
        have dm': "dom (map_of m) \<subseteq> dom (map_of m')"
          using dm by (auto simp: r)
        have "clone_post L s m s' m'"
          using pre' fr' dm' lt by (simp add: clone_post_def r)
        moreover have "copied L (length s') v v'"
          using L lt by (simp add: r SRef copied_def)
        ultimately show ?thesis ..
      qed
    qed (use pre run in \<open>auto simp: clone_post_refl copied_def\<close>)
  qed
qed

lemma reach_fresh:
  assumes "reach s a b" and "fresh_closed L s" and "L \<le> a" and "a < length s"
  shows "L \<le> b \<and> b < length s"
  using assms
proof (induction rule: reach.induct)
  case reach_self
  then show ?case by simp
next
  case (reach_step b c)
  then have "L \<le> b \<and> b < length s" by simp
  then have "cell_within L (length s) (s ! b)" using reach_step.prems by (simp add: fresh_closed_def)
  then have "val_within L (length s) (SRef c)"
    using reach_step.hyps(3) by (auto simp: cell_within_def list_all_iff)
  then show ?case by simp
qed


lemma src_ok_post: "src_ok L s \<Longrightarrow> clone_post L s m s' m' \<Longrightarrow> src_ok L s'"
  by (auto simp: src_ok_def clone_post_def)

lemma unvisited_post:
  "clone_post L s m s' m' \<Longrightarrow> card (unvisited L m') \<le> card (unvisited L m)"
  by (rule card_mono) (auto simp: unvisited_def clone_post_def)

lemma clone_all_total:
  assumes tot: "\<And>s m v. clone_pre L s m \<Longrightarrow> src_ok L s \<Longrightarrow> val_within 0 L v \<Longrightarrow>
                  card (unvisited L m) < K \<Longrightarrow> f s m v \<noteq> None"
      and good: "clone_good L f"
  shows "clone_pre L s m \<Longrightarrow> src_ok L s \<Longrightarrow> list_all (val_within 0 L) vs \<Longrightarrow>
         card (unvisited L m) < K \<Longrightarrow> clone_all f s m vs \<noteq> None"
proof (induction vs arbitrary: s m)
  case Nil
  show ?case by simp
next
  case (Cons v vs)
  from Cons.prems have "f s m v \<noteq> None" by (intro tot) simp_all
  then obtain s1 m1 v1 where 1: "f s m v = Some (s1, m1, v1)" by auto
  from good Cons.prems(1) 1 have post: "clone_post L s m s1 m1" by (auto simp: clone_good_def)
  then have pre1: "clone_pre L s1 m1" by (simp add: clone_post_def)
  have src1: "src_ok L s1" using Cons.prems(2) post by (rule src_ok_post)
  have c1: "card (unvisited L m1) < K"
    using unvisited_post [OF post] Cons.prems(4) by simp
  have "clone_all f s1 m1 vs \<noteq> None"
    using pre1 src1 _ c1 by (rule Cons.IH) (use Cons.prems(3) in simp)
  then show ?case using 1 by (auto split: option.splits)
qed

lemma src_ok_alloc: "src_ok L s \<Longrightarrow> src_ok L (s @ [c])"
  by (auto simp: src_ok_def nth_append)

lemma clone_total:
  "clone_pre L s m \<Longrightarrow> src_ok L s \<Longrightarrow> val_within 0 L v \<Longrightarrow> card (unvisited L m) < n \<Longrightarrow>
   clone n s m v \<noteq> None"
proof (induction n arbitrary: s m v)
  case 0
  then show ?case by simp
next
  case (Suc n)
  show ?case
  proof (cases v)
    case (SRef a)
    show ?thesis
    proof (cases "map_of m a")
      case (Some a')
      then show ?thesis by (simp add: SRef)
    next
      case None
      let ?s0 = "s @ [CArr []]" and ?m0 = "(a, length s) # m"
      from Suc.prems(3) SRef have aL: "a < L" by simp
      with Suc.prems(2) have a: "a < length s" and cw: "cell_within 0 L (s ! a)"
        by (auto simp: src_ok_def)
      have mem: "a \<in> unvisited L m" using aL None by (auto simp: unvisited_def)
      have "unvisited L ?m0 = unvisited L m - {a}" by (auto simp: unvisited_def)
      moreover have "finite (unvisited L m)" by (simp add: unvisited_def)
      ultimately have "card (unvisited L ?m0) < card (unvisited L m)"
        using mem card_Diff1_less [of "unvisited L m" a] by simp
      then have c0: "card (unvisited L ?m0) < n" using Suc.prems(4) by simp
      have "clone_all (clone n) ?s0 ?m0 (cell_values (s ! a)) \<noteq> None"
      proof (rule clone_all_total [where K = n and L = L])
        show "clone_good L (clone n)" by (rule clone_good)
        show "clone_pre L ?s0 ?m0" using Suc.prems(1) by (rule clone_pre_alloc)
        show "src_ok L ?s0" using Suc.prems(2) by (rule src_ok_alloc)
        show "list_all (val_within 0 L) (cell_values (s ! a))"
          using cw by (simp add: cell_within_def)
        show "card (unvisited L ?m0) < n" by (rule c0)
      qed (rule Suc.IH)
      then show ?thesis using None a by (auto simp: SRef split: option.splits)
    qed
  qed simp_all
qed

lemma fresh_closed_start: "fresh_closed (length s) s"
  by (auto simp: fresh_closed_def)

lemma clone_pre_start: "clone_pre (length s) s []"
  by (simp add: clone_pre_def fresh_closed_start memo_fresh_def)

lemma src_ok_start: "wf_store s \<Longrightarrow> src_ok (length s) s"
  by (simp add: wf_store_def src_ok_def list_all_length)

lemma delete_userData_within: "cell_within lo hi c \<Longrightarrow> cell_within lo hi (delete_userData c)"
  by (cases c) (auto simp: cell_within_def list_all_iff)

lemma getWithOutUserData_store_result:
  assumes wf: "wf_store s" and inside: "this < length s"
  shows "\<exists>s1 vs'. getWithOutUserData_store (Suc (length s)) s this
            = Some (s1[length s := delete_userData (with_values (s ! this) vs')], length s)
          \<and> length s < length s1
          \<and> list_all2 (copied (length s) (length s1)) (cell_values (s ! this)) vs'
          \<and> fresh_closed (length s) (s1[length s := delete_userData (with_values (s ! this) vs')])
          \<and> (\<forall>b<length s. s1 ! b = s ! b)"
proof -
  let ?L = "length s"
  let ?s0 = "s @ [CArr []]" and ?m0 = "[(this, length s)]"
  have pre0: "clone_pre ?L ?s0 ?m0" using clone_pre_start by (rule clone_pre_alloc)
  have "clone (Suc ?L) s [] (SRef this) \<noteq> None"
    using clone_pre_start src_ok_start [OF wf]
    by (rule clone_total) (simp_all add: inside unvisited_def)
  then obtain s1 m1 vs' where
    all: "clone_all (clone ?L) ?s0 ?m0 (cell_values (s ! this)) = Some (s1, m1, vs')"
    using inside by (auto split: option.splits)
  from clone_all_good [OF clone_good pre0 all]
  have post: "clone_post ?L ?s0 ?m0 s1 m1"
    and cp: "list_all2 (copied ?L (length s1)) (cell_values (s ! this)) vs'" by auto
  from post have len: "length ?s0 \<le> length s1" and pre1: "clone_pre ?L s1 m1"
    and fr: "\<forall>b<?L. s1 ! b = ?s0 ! b" by (simp_all add: clone_post_def)
  have lt: "?L < length s1" using len by simp
  have run: "getWithOutUserData_store (Suc ?L) s this
      = Some (s1[?L := delete_userData (with_values (s ! this) vs')], ?L)"
    using inside all lt by (simp add: getWithOutUserData_store_def structuredClone_store_def)
  have cw: "cell_within ?L (length s1) (delete_userData (with_values (s ! this) vs'))"
    using cp by (intro delete_userData_within cell_within_with_values list_all2_copied_within)
  have "clone_pre ?L (s1[?L := delete_userData (with_values (s ! this) vs')]) m1"
    using pre1 _ lt cw by (rule clone_pre_write) simp
  then have fc: "fresh_closed ?L (s1[?L := delete_userData (with_values (s ! this) vs')])"
    by (simp add: clone_pre_def)
  have fr': "\<forall>b<?L. s1 ! b = s ! b" using fr by (simp add: nth_append)
  show ?thesis using run lt cp fc fr' by blast
qed


subsection \<open>The copy is the image of the original\<close>

lemma renamed_ext: "memo_ext M M' \<Longrightarrow> val_in_dom M v \<Longrightarrow> renamed M' v = renamed M v"
  by (cases v) (auto simp: memo_ext_def)

lemma val_in_dom_ext: "memo_ext M M' \<Longrightarrow> val_in_dom M v \<Longrightarrow> val_in_dom M' v"
  by (cases v) (auto simp: memo_ext_def)

lemma memo_ext_refl: "memo_ext M M"
  by (simp add: memo_ext_def)

lemma memo_ext_trans: "memo_ext M M1 \<Longrightarrow> memo_ext M1 M2 \<Longrightarrow> memo_ext M M2"
  by (simp add: memo_ext_def)

lemma image_cell_ext:
  assumes "memo_ext M M'" and "list_all (val_in_dom M) (cell_values c)"
  shows "image_cell M' c = image_cell M c"
proof -
  have "map (renamed M') (cell_values c) = map (renamed M) (cell_values c)"
    using assms by (intro map_cong refl) (auto simp: list_all_iff renamed_ext)
  then show ?thesis by (simp only: image_cell_def)
qed

lemma sim_stable:
  assumes s: "sim s0 M S a a'" and e: "memo_ext M M'"
      and l: "length S \<le> length S'" and f: "S' ! a' = S ! a'"
  shows "sim s0 M' S' a a'"
proof -
  from s have 1: "a < length s0" "a' < length S" "S ! a' = image_cell M (s0 ! a)"
    and d: "list_all (val_in_dom M) (cell_values (s0 ! a))" by (simp_all add: sim_def)
  have "list_all (val_in_dom M') (cell_values (s0 ! a))"
    using d e by (auto simp: list_all_iff intro: val_in_dom_ext)
  then show ?thesis using 1 l f image_cell_ext [OF e d] by (simp add: sim_def)
qed

lemma sim_post_refl: "sim_post s0 S M S M"
  by (simp add: sim_post_def memo_ext_refl)

lemma sim_post_trans:
  assumes a: "sim_post s0 S M S1 M1" and b: "sim_post s0 S1 M1 S2 M2"
  shows "sim_post s0 S M S2 M2"
proof -
  from a have a1: "length S \<le> length S1" and a2: "\<forall>b<length S. S1 ! b = S ! b"
    and a3: "memo_ext M M1"
    and a4: "\<forall>x x'. map_of M1 x = Some x' \<longrightarrow> map_of M x = Some x' \<or> length S \<le> x' \<and> x' < length S1"
    and a5: "\<forall>P. sim_inv s0 P M S \<longrightarrow> sim_inv s0 P M1 S1"
    and a6: "inj_memo M \<longrightarrow> inj_memo M1"
    by (simp_all add: sim_post_def)
  from b have b1: "length S1 \<le> length S2" and b2: "\<forall>b<length S1. S2 ! b = S1 ! b"
    and b3: "memo_ext M1 M2"
    and b4: "\<forall>x x'. map_of M2 x = Some x' \<longrightarrow> map_of M1 x = Some x' \<or> length S1 \<le> x' \<and> x' < length S2"
    and b5: "\<forall>P. sim_inv s0 P M1 S1 \<longrightarrow> sim_inv s0 P M2 S2"
    and b6: "inj_memo M1 \<longrightarrow> inj_memo M2"
    by (simp_all add: sim_post_def)
  have c1: "length S \<le> length S2" using a1 b1 by simp
  have c2: "\<forall>b<length S. S2 ! b = S ! b" using a1 a2 b2 by simp
  have c3: "memo_ext M M2" using a3 b3 by (rule memo_ext_trans)
  have c4: "\<forall>x x'. map_of M2 x = Some x' \<longrightarrow> map_of M x = Some x' \<or> length S \<le> x' \<and> x' < length S2"
  proof (intro allI impI)
    fix x x' assume "map_of M2 x = Some x'"
    with b4 consider "map_of M1 x = Some x'" | "length S1 \<le> x' \<and> x' < length S2" by blast
    then show "map_of M x = Some x' \<or> length S \<le> x' \<and> x' < length S2"
    proof cases
      case 1
      with a4 have "map_of M x = Some x' \<or> length S \<le> x' \<and> x' < length S1" by blast
      then show ?thesis using b1 by auto
    next
      case 2
      then show ?thesis using a1 by auto
    qed
  qed
  have c5: "\<forall>P. sim_inv s0 P M S \<longrightarrow> sim_inv s0 P M2 S2" using a5 b5 by blast
  have c6: "inj_memo M \<longrightarrow> inj_memo M2" using a6 b6 by blast
  show ?thesis using c1 c2 c3 c4 c5 c6 by (simp add: sim_post_def)
qed

lemma sim_pre_post:
  assumes pre: "sim_pre s0 S M" and post: "sim_post s0 S M S' M'"
  shows "sim_pre s0 S' M'"
proof -
  from pre have src: "src_ok (length s0) S" and fr: "\<forall>b<length s0. S ! b = s0 ! b"
    and tg: "\<forall>a a'. map_of M a = Some a' \<longrightarrow> a' < length S" by (simp_all add: sim_pre_def)
  from post have l: "length S \<le> length S'" and f: "\<forall>b<length S. S' ! b = S ! b"
    and nt: "\<forall>a a'. map_of M' a = Some a' \<longrightarrow> map_of M a = Some a' \<or> length S \<le> a' \<and> a' < length S'"
    by (simp_all add: sim_post_def)
  from src have L: "length s0 \<le> length S" by (simp add: src_ok_def)
  have "src_ok (length s0) S'" using src l f by (auto simp: src_ok_def)
  moreover have "\<forall>b<length s0. S' ! b = s0 ! b" using fr f L by simp
  moreover have "\<forall>a a'. map_of M' a = Some a' \<longrightarrow> a' < length S'"
  proof (intro allI impI)
    fix a a' assume "map_of M' a = Some a'"
    with nt have "map_of M a = Some a' \<or> length S \<le> a' \<and> a' < length S'" by blast
    then show "a' < length S'" using tg l by (auto dest: less_le_trans)
  qed
  ultimately show ?thesis by (simp add: sim_pre_def)
qed

lemma clone_all_sim:
  assumes f: "clone_sim s0 f"
  shows "sim_pre s0 S M \<Longrightarrow> list_all (val_within 0 (length s0)) vs \<Longrightarrow>
         clone_all f S M vs = Some (S', M', vs') \<Longrightarrow>
         sim_post s0 S M S' M' \<and> vs' = map (renamed M') vs \<and> list_all (val_in_dom M') vs"
proof (induction vs arbitrary: S M S' M' vs')
  case Nil
  then show ?case by (simp add: sim_post_refl)
next
  case (Cons v vs)
  from Cons.prems(3) obtain S1 M1 v1 S2 M2 vs2 where
    1: "f S M v = Some (S1, M1, v1)" and 2: "clone_all f S1 M1 vs = Some (S2, M2, vs2)"
    and r: "S' = S2" "M' = M2" "vs' = v1 # vs2"
    by (auto split: option.splits)
  from Cons.prems(2) have vw: "val_within 0 (length s0) v"
    and vsw: "list_all (val_within 0 (length s0)) vs" by simp_all
  from f Cons.prems(1) vw 1 have p1: "sim_post s0 S M S1 M1" and v1: "v1 = renamed M1 v"
    and d1: "val_in_dom M1 v" by (auto simp: clone_sim_def)
  have pre1: "sim_pre s0 S1 M1" using Cons.prems(1) p1 by (rule sim_pre_post)
  from Cons.IH [OF pre1 vsw 2] have p2: "sim_post s0 S1 M1 S2 M2"
    and v2: "vs2 = map (renamed M2) vs" and d2: "list_all (val_in_dom M2) vs" by auto
  from p2 have e: "memo_ext M1 M2" by (simp add: sim_post_def)
  have "v1 = renamed M2 v" using v1 renamed_ext [OF e d1] by simp
  moreover have "val_in_dom M2 v" using e d1 by (rule val_in_dom_ext)
  ultimately show ?case using sim_post_trans [OF p1 p2] v2 d2 by (simp add: r)
qed


lemma sim_pre_alloc:
  assumes "sim_pre s0 S M"
  shows "sim_pre s0 (S @ [CArr []]) ((a, length S) # M)"
proof -
  from assms have src: "src_ok (length s0) S" and fr: "\<forall>b<length s0. S ! b = s0 ! b"
    and tg: "\<forall>x x'. map_of M x = Some x' \<longrightarrow> x' < length S" by (simp_all add: sim_pre_def)
  from src have L: "length s0 \<le> length S" by (simp add: src_ok_def)
  have "src_ok (length s0) (S @ [CArr []])" using src by (rule src_ok_alloc)
  moreover have "\<forall>b<length s0. (S @ [CArr []]) ! b = s0 ! b" using fr L by (simp add: nth_append)
  moreover have "\<forall>x x'. map_of ((a, length S) # M) x = Some x' \<longrightarrow> x' < length (S @ [CArr []])"
    using tg by (auto simp: less_Suc_eq)
  ultimately show ?thesis by (simp add: sim_pre_def)
qed

lemma clone_sim: "clone_sim s0 (clone n)"
proof (induction n)
  case 0
  show ?case by (simp add: clone_sim_def)
next
  case (Suc n)
  show ?case
    unfolding clone_sim_def
  proof (intro allI impI)
    fix S M v S' M' v'
    assume pre: "sim_pre s0 S M" and vw: "val_within 0 (length s0) v"
      and run: "clone (Suc n) S M v = Some (S', M', v')"
    from pre have src: "src_ok (length s0) S" and fr: "\<forall>b<length s0. S ! b = s0 ! b"
      and tg: "\<forall>x x'. map_of M x = Some x' \<longrightarrow> x' < length S" by (simp_all add: sim_pre_def)
    from src have L: "length s0 \<le> length S" by (simp add: src_ok_def)
    show "sim_post s0 S M S' M' \<and> v' = renamed M' v \<and> val_in_dom M' v"
    proof (cases v)
      case (SRef a)
      show ?thesis
      proof (cases "map_of M a")
        case (Some a')
        then show ?thesis using run by (simp add: SRef sim_post_refl)
      next
        case None
        let ?a0 = "length S"
        let ?S0 = "S @ [CArr []]" and ?M0 = "(a, length S) # M"
        from vw SRef have aL: "a < length s0" by simp
        then have a: "a < length S" using L by simp
        have cell: "S ! a = s0 ! a" using fr aL by simp
        have cw: "list_all (val_within 0 (length s0)) (cell_values (S ! a))"
          using src aL by (simp add: src_ok_def cell_within_def)
        from run SRef None a obtain S1 M1 vs1 where
          all: "clone_all (clone n) ?S0 ?M0 (cell_values (S ! a)) = Some (S1, M1, vs1)"
          and r: "S' = S1[?a0 := with_values (S ! a) vs1]" "M' = M1" "v' = SRef ?a0"
          by (auto split: option.splits)
        have pre0: "sim_pre s0 ?S0 ?M0" using pre by (rule sim_pre_alloc)
        from clone_all_sim [OF Suc.IH pre0 cw all]
        have post1: "sim_post s0 ?S0 ?M0 S1 M1"
          and vs1: "vs1 = map (renamed M1) (cell_values (S ! a))"
          and dom1: "list_all (val_in_dom M1) (cell_values (S ! a))" by auto
        from post1 have len1: "length ?S0 \<le> length S1"
          and fr1: "\<forall>b<length ?S0. S1 ! b = ?S0 ! b"
          and ext1: "memo_ext ?M0 M1"
          and new1: "\<forall>x x'. map_of M1 x = Some x' \<longrightarrow>
                map_of ?M0 x = Some x' \<or> length ?S0 \<le> x' \<and> x' < length S1"
          and inv1: "\<forall>P. sim_inv s0 P ?M0 ?S0 \<longrightarrow> sim_inv s0 P M1 S1"
          and inj1: "inj_memo ?M0 \<longrightarrow> inj_memo M1"
          by (simp_all add: sim_post_def)
        have lt: "?a0 < length S1" using len1 by simp
        have Ma: "map_of M1 a = Some ?a0" using ext1 by (simp add: memo_ext_def)
        have ext0: "memo_ext M ?M0" using None by (auto simp: memo_ext_def)
        have ext: "memo_ext M M1" using ext0 ext1 by (rule memo_ext_trans)
        have c1: "length S \<le> length S'" using lt by (simp add: r)
        have c2: "\<forall>b<length S. S' ! b = S ! b"
          using fr1 by (auto simp: r nth_append)
        have c4: "\<forall>x x'. map_of M1 x = Some x' \<longrightarrow>
                    map_of M x = Some x' \<or> length S \<le> x' \<and> x' < length S'"
        proof (intro allI impI)
          fix x x' assume "map_of M1 x = Some x'"
          with new1 consider "map_of ?M0 x = Some x'" | "length ?S0 \<le> x' \<and> x' < length S1"
            by blast
          then show "map_of M x = Some x' \<or> length S \<le> x' \<and> x' < length S'"
          proof cases
            case 1
            then show ?thesis using lt by (auto simp: r split: if_splits)
          next
            case 2
            then show ?thesis by (simp add: r)
          qed
        qed
        have c5: "\<forall>P. sim_inv s0 P M S \<longrightarrow> sim_inv s0 P M1 S'"
        proof (intro allI impI)
          fix P assume inv: "sim_inv s0 P M S"
          have "sim_inv s0 (insert a P) ?M0 ?S0"
            unfolding sim_inv_def
          proof (intro allI impI)
            fix x x' assume m: "map_of ?M0 x = Some x'"
            show "x \<in> insert a P \<or> sim s0 ?M0 ?S0 x x'"
            proof (cases "x = a")
              case True
              then show ?thesis by simp
            next
              case False
              with m have mx: "map_of M x = Some x'" by simp
              with inv have "x \<in> P \<or> sim s0 M S x x'" by (simp add: sim_inv_def)
              moreover have "x' < length S" using tg mx by blast
              then have "?S0 ! x' = S ! x'" by (simp add: nth_append)
              ultimately show ?thesis
                using sim_stable [OF _ ext0, of s0 S x x' ?S0] by auto
            qed
          qed
          with inv1 have i1: "sim_inv s0 (insert a P) M1 S1" by blast
          show "sim_inv s0 P M1 S'"
            unfolding sim_inv_def
          proof (intro allI impI)
            fix x x' assume m: "map_of M1 x = Some x'"
            show "x \<in> P \<or> sim s0 M1 S' x x'"
            proof (cases "x = a")
              case True
              then have x': "x' = ?a0" using m Ma by simp
              have "S' ! ?a0 = image_cell M1 (s0 ! a)"
                using lt by (simp add: r vs1 cell image_cell_def)
              moreover have "list_all (val_in_dom M1) (cell_values (s0 ! a))"
                using dom1 by (simp add: cell)
              ultimately have "sim s0 M1 S' a ?a0"
                using aL lt by (simp add: sim_def r)
              then show ?thesis by (simp add: True x')
            next
              case False
              from i1 m False have "x \<in> P \<or> sim s0 M1 S1 x x'" by (auto simp: sim_inv_def)
              moreover have "x' \<noteq> ?a0"
              proof -
                from new1 m have "map_of ?M0 x = Some x' \<or> length ?S0 \<le> x' \<and> x' < length S1"
                  by blast
                then show ?thesis using False tg by (auto split: if_splits)
              qed
              then have "S' ! x' = S1 ! x'" by (simp add: r)
              ultimately show ?thesis
                using sim_stable [OF _ memo_ext_refl, of s0 M1 S1 x x' S'] by (auto simp: r)
            qed
          qed
        qed
        have c6: "inj_memo M \<longrightarrow> inj_memo M1"
        proof
          assume i: "inj_memo M"
          have "inj_memo ?M0"
            unfolding inj_memo_def
          proof (intro allI impI)
            fix x y x' assume h: "map_of ?M0 x = Some x' \<and> map_of ?M0 y = Some x'"
            show "x = y"
            proof (cases "x = a")
              case True
              then have "x' = ?a0" using h by simp
              then show ?thesis using h True tg by (auto split: if_splits)
            next
              case False
              then have mx: "map_of M x = Some x'" using h by simp
              then have "x' < ?a0" using tg by blast
              then have "y \<noteq> a" using h by auto
              then have "map_of M y = Some x'" using h by simp
              with i mx show ?thesis by (auto simp: inj_memo_def)
            qed
          qed
          with inj1 show "inj_memo M1" by blast
        qed
        have "sim_post s0 S M S' M'"
          using c1 c2 ext c4 c5 c6 by (simp add: sim_post_def r)
        moreover have "v' = renamed M' v" using Ma by (simp add: r SRef)
        moreover have "val_in_dom M' v" using Ma by (simp add: r SRef)
        ultimately show ?thesis by simp
      qed
    qed (use run in \<open>auto simp: sim_post_refl\<close>)
  qed
qed


lemma sim_pre_start: "wf_store s \<Longrightarrow> sim_pre s s []"
  by (simp add: sim_pre_def src_ok_start)

lemma delete_userData_no_key:
  "delete_userData c = CObj kvs' \<Longrightarrow> ''userData'' \<notin> set (map fst kvs')"
  by (cases c) auto


subsection \<open>Reading a copy gives the value of the original\<close>

text \<open>
  This is why \<^verbatim>\<open>structuredClone\<close> is the identity in the model on values.
\<close>

lemma value_of_image:
  assumes inv: "sim_inv s0 {} M S"
  shows "val_in_dom M v \<Longrightarrow> value_of n S (renamed M v) = value_of n s0 v"
proof (induction n arbitrary: v)
  case 0
  show ?case by simp
next
  case (Suc n)
  show ?case
  proof (cases v)
    case (SRef a)
    with Suc.prems obtain a' where m: "map_of M a = Some a'" by auto
    with inv have sm: "sim s0 M S a a'" by (simp add: sim_inv_def)
    then have a: "a < length s0" and a': "a' < length S"
      and c: "S ! a' = image_cell M (s0 ! a)"
      and d: "list_all (val_in_dom M) (cell_values (s0 ! a))" by (simp_all add: sim_def)
    have ch: "map (value_of n S) (map (renamed M) (cell_values (s0 ! a)))
                = map (value_of n s0) (cell_values (s0 ! a))"
      using d Suc.IH by (auto simp: list_all_iff)
    show ?thesis
    proof (cases "s0 ! a")
      case (CObj kvs)
      have z: "zip (map fst kvs) (map (renamed M \<circ> snd) kvs)
                = map (\<lambda>kv. (fst kv, renamed M (snd kv))) kvs"
        by (induction kvs) auto
      have cell: "S ! a' = CObj (map (\<lambda>kv. (fst kv, renamed M (snd kv))) kvs)"
        using c by (simp add: CObj image_cell_def z)
      have e: "map (\<lambda>x. value_of n S (renamed M (snd x))) kvs
                      = map (\<lambda>x. value_of n s0 (snd x)) kvs"
        using ch by (simp add: CObj comp_def)
      show ?thesis using a a' m by (simp add: SRef CObj comp_def cell e)
    next
      case (CArr vs)
      then have cell: "S ! a' = CArr (map (renamed M) vs)" using c by (simp add: image_cell_def)
      have e: "map (\<lambda>x. value_of n S (renamed M x)) vs = map (value_of n s0) vs"
        using ch by (simp add: CArr comp_def)
      show ?thesis using a a' m by (simp add: SRef CArr comp_def cell e)
    qed
  qed simp_all
qed

lemma structuredClone_store_value:
  assumes wf: "wf_store s" and v: "val_within 0 (length s) v"
      and run: "structuredClone_store fuel s v = Some (s', v')"
  shows "value_of n s' v' = value_of n s v"
proof -
  from run obtain M where c: "clone fuel s [] v = Some (s', M, v')"
    by (auto simp: structuredClone_store_def split: option.splits)
  from clone_sim [of s fuel] sim_pre_start [OF wf] v c
  have post: "sim_post s s [] s' M" and v': "v' = renamed M v" and d: "val_in_dom M v"
    by (auto simp: clone_sim_def)
  have "sim_inv s {} [] s" by (simp add: sim_inv_def)
  with post have "sim_inv s {} M s'" by (simp add: sim_post_def)
  then show ?thesis using d unfolding v' by (rule value_of_image)
qed


lemma those_map_Some:
  "those (map f vs) = Some xs \<longleftrightarrow> list_all2 (\<lambda>v x. f v = Some x) vs xs"
proof (induction vs arbitrary: xs)
  case Nil
  show ?case by auto
next
  case (Cons v vs)
  show ?case
    by (cases xs) (auto simp: Cons.IH split: option.splits)
qed

lemma value_of_Suc: "value_of n S v = Some x \<Longrightarrow> value_of (Suc n) S v = Some x"
proof (induction n arbitrary: v x)
  case 0
  then show ?case by simp
next
  case (Suc n)
  show ?case
  proof (cases v)
    case (SRef a)
    with Suc.prems have a: "a < length S" by (simp split: if_splits)
    show ?thesis
    proof (cases "S ! a")
      case (CObj kvs)
      with Suc.prems SRef a obtain xs where
        t: "those (map (value_of n S) (map snd kvs)) = Some xs"
        and x: "x = JObj (zip (map fst kvs) xs)" by auto
      from t have "list_all2 (\<lambda>v x. value_of n S v = Some x) (map snd kvs) xs"
        by (simp only: those_map_Some)
      then have "list_all2 (\<lambda>v x. value_of (Suc n) S v = Some x) (map snd kvs) xs"
        by (rule list_all2_mono) (rule Suc.IH)
      then have "those (map (value_of (Suc n) S) (map snd kvs)) = Some xs"
        by (simp only: those_map_Some)
      then show ?thesis using a x by (simp add: SRef CObj)
    next
      case (CArr vs)
      with Suc.prems SRef a obtain xs where
        t: "those (map (value_of n S) vs) = Some xs" and x: "x = JArr xs" by auto
      from t have "list_all2 (\<lambda>v x. value_of n S v = Some x) vs xs"
        by (simp only: those_map_Some)
      then have "list_all2 (\<lambda>v x. value_of (Suc n) S v = Some x) vs xs"
        by (rule list_all2_mono) (rule Suc.IH)
      then have "those (map (value_of (Suc n) S) vs) = Some xs"
        by (simp only: those_map_Some)
      then show ?thesis using a x by (simp add: SRef CArr)
    qed
  qed (use Suc.prems in auto)
qed

lemma value_of_mono: "value_of n S v = Some x \<Longrightarrow> n \<le> m \<Longrightarrow> value_of m S v = Some x"
proof (induction m)
  case 0
  then show ?case by simp
next
  case (Suc m)
  show ?case
  proof (cases "n = Suc m")
    case True
    then show ?thesis using Suc.prems(1) by simp
  next
    case False
    then have "n \<le> m" using Suc.prems(2) by simp
    with Suc.prems(1) have "value_of m S v = Some x" by (rule Suc.IH)
    then show ?thesis by (rule value_of_Suc)
  qed
qed

lemma value_of_unique:
  assumes "value_of n S v = Some x" and "value_of m S v = Some y"
  shows "x = y"
proof -
  have "value_of (max n m) S v = Some x" using assms(1) by (rule value_of_mono) simp
  moreover have "value_of (max n m) S v = Some y" using assms(2) by (rule value_of_mono) simp
  ultimately show ?thesis by simp
qed

lemma size_elem_JArr: "x \<in> set xs \<Longrightarrow> size x < size (JArr xs)"
  by (induction xs) auto

lemma size_elem_JObj: "(k, x) \<in> set ob \<Longrightarrow> size x < size (JObj ob)"
  by (induction ob) auto

lemma value_of_unvisited:
  assumes top: "value_of m S (SRef a) = Some y"
  shows "value_of n S v = Some x \<Longrightarrow> size x < size y \<Longrightarrow> value_of n (S[a := c]) v = Some x"
proof (induction n arbitrary: v x)
  case 0
  then show ?case by simp
next
  case (Suc n)
  show ?case
  proof (cases v)
    case (SRef b)
    with Suc.prems have b: "b < length S" by (simp split: if_splits)
    have ne: "b \<noteq> a"
    proof
      assume "b = a"
      with Suc.prems(1) SRef have "value_of (Suc n) S (SRef a) = Some x" by (simp only:)
      then have "x = y" using top by (rule value_of_unique)
      then show False using Suc.prems(2) by simp
    qed
    then have cell: "S[a := c] ! b = S ! b" by simp
    show ?thesis
    proof (cases "S ! b")
      case (CObj kvs)
      with Suc.prems SRef b obtain xs where
        t: "those (map (value_of n S) (map snd kvs)) = Some xs"
        and x: "x = JObj (zip (map fst kvs) xs)" by auto
      from t have l: "list_all2 (\<lambda>v x. value_of n S v = Some x) (map snd kvs) xs"
        by (simp only: those_map_Some)
      then have len: "length xs = length kvs" by (auto dest: list_all2_lengthD)
      have "list_all2 (\<lambda>v x. value_of n (S[a := c]) v = Some x) (map snd kvs) xs"
      proof (rule list_all2_all_nthI)
        show "length (map snd kvs) = length xs" using len by simp
      next
        fix i assume i: "i < length (map snd kvs)"
        then have v: "value_of n S (map snd kvs ! i) = Some (xs ! i)"
          using l by (auto dest: list_all2_nthD)
        have "(fst (kvs ! i), xs ! i) \<in> set (zip (map fst kvs) xs)"
          using i len by (auto simp: set_zip intro!: exI [of _ i])
        then have "size (xs ! i) < size x" unfolding x by (rule size_elem_JObj)
        then have "size (xs ! i) < size y" using Suc.prems(2) by simp
        with v show "value_of n (S[a := c]) (map snd kvs ! i) = Some (xs ! i)" by (rule Suc.IH)
      qed
      then have "those (map (value_of n (S[a := c])) (map snd kvs)) = Some xs"
        by (simp only: those_map_Some)
      then show ?thesis using b x cell by (simp add: SRef CObj)
    next
      case (CArr vs)
      with Suc.prems SRef b obtain xs where
        t: "those (map (value_of n S) vs) = Some xs" and x: "x = JArr xs" by auto
      from t have l: "list_all2 (\<lambda>v x. value_of n S v = Some x) vs xs"
        by (simp only: those_map_Some)
      have "list_all2 (\<lambda>v x. value_of n (S[a := c]) v = Some x) vs xs"
      proof (rule list_all2_all_nthI)
        show "length vs = length xs" using l by (rule list_all2_lengthD)
      next
        fix i assume i: "i < length vs"
        then have v: "value_of n S (vs ! i) = Some (xs ! i)"
          using l by (auto dest: list_all2_nthD)
        have "xs ! i \<in> set xs" using i l by (auto dest: list_all2_lengthD)
        then have "size (xs ! i) < size x" unfolding x by (rule size_elem_JArr)
        then have "size (xs ! i) < size y" using Suc.prems(2) by simp
        with v show "value_of n (S[a := c]) (vs ! i) = Some (xs ! i)" by (rule Suc.IH)
      qed
      then have "those (map (value_of n (S[a := c])) vs) = Some xs"
        by (simp only: those_map_Some)
      then show ?thesis using b x cell by (simp add: SRef CArr)
    qed
  qed (use Suc.prems in auto)
qed


text \<open>
  The same for \<^verbatim>\<open>getWithOutUserData\<close>: when the instance has a value, the copy
  that the store model returns reads as what the model on values returns for it.
\<close>

lemma those_filter_zip:
  "list_all2 (\<lambda>kv x. g (snd kv) = Some x) kvs xs \<Longrightarrow>
   \<exists>xs'. those (map g (map snd (filter (\<lambda>kv. fst kv \<noteq> u) kvs))) = Some xs'
         \<and> zip (map fst (filter (\<lambda>kv. fst kv \<noteq> u) kvs)) xs'
             = filter (\<lambda>kv. fst kv \<noteq> u) (zip (map fst kvs) xs)"
  by (induction rule: list_all2_induct) auto

lemma getWithOutUserData_store_value:
  assumes wf: "wf_store s" and inside: "this < length s"
      and run: "getWithOutUserData_store fuel s this = Some (s', copy)"
      and val: "value_of n s (SRef this) = Some (JObj ob)"
  shows "value_of n s' (SRef copy) = Some (JObj (getWithOutUserData ob))"
proof -
  from run obtain s1 where sc: "structuredClone_store fuel s (SRef this) = Some (s1, SRef copy)"
    and s': "s' = s1[copy := delete_userData (s1 ! copy)]"
    by (auto simp: getWithOutUserData_store_def split: option.splits sval.splits)
  have "value_of n s1 (SRef copy) = value_of n s (SRef this)"
    using wf _ sc by (rule structuredClone_store_value) (simp add: inside)
  with val have v1: "value_of n s1 (SRef copy) = Some (JObj ob)" by simp
  then obtain k where n: "n = Suc k" by (cases n) simp_all
  from v1 have c: "copy < length s1" by (simp add: n split: if_splits)
  from v1 c obtain kvs1 xs where cell: "s1 ! copy = CObj kvs1"
    and t: "those (map (value_of k s1) (map snd kvs1)) = Some xs"
    and ob: "ob = zip (map fst kvs1) xs"
    by (cases "s1 ! copy") (auto simp: n)
  from t have l: "list_all2 (\<lambda>v x. value_of k s1 v = Some x) (map snd kvs1) xs"
    by (simp only: those_map_Some)
  then have len: "length xs = length kvs1" by (auto dest: list_all2_lengthD)
  have l': "list_all2 (\<lambda>kv x. value_of k s' (snd kv) = Some x) kvs1 xs"
  proof (rule list_all2_all_nthI)
    show "length kvs1 = length xs" using len by simp
  next
    fix i assume i: "i < length kvs1"
    then have v: "value_of k s1 (snd (kvs1 ! i)) = Some (xs ! i)"
      using l by (auto dest: list_all2_nthD)
    have "(fst (kvs1 ! i), xs ! i) \<in> set ob"
      unfolding ob using i len by (auto simp: set_zip intro!: exI [of _ i])
    then have "size (xs ! i) < size (JObj ob)" by (rule size_elem_JObj)
    with v show "value_of k s' (snd (kvs1 ! i)) = Some (xs ! i)"
      unfolding s' by (rule value_of_unvisited [OF v1])
  qed
  from those_filter_zip [OF l', of "''userData''"] obtain xs' where
    t': "those (map (value_of k s') (map snd (filter (\<lambda>kv. fst kv \<noteq> ''userData'') kvs1))) = Some xs'"
    and z: "zip (map fst (filter (\<lambda>kv. fst kv \<noteq> ''userData'') kvs1)) xs'
             = filter (\<lambda>kv. fst kv \<noteq> ''userData'') ob"
    unfolding ob by blast
  have cell': "s' ! copy = CObj (filter (\<lambda>kv. fst kv \<noteq> ''userData'') kvs1)"
    using c by (simp add: s' cell)
  have c': "copy < length s'" using c by (simp add: s')
  show ?thesis
    using c' t' z
    by (simp add: n cell' getWithOutUserData_def structuredClone_def delete_prop_def)
qed


subsection \<open>The copy without user data\<close>

text \<open>
  Claim C6. Let the store be well formed and \<open>this\<close> the address of an instance. Then
  \<^verbatim>\<open>getWithOutUserData\<close> returns: it yields a store and the address of a copy. The
  copy is an object without a \<^verbatim>\<open>userData\<close> key. There is a one-to-one renaming of
  addresses that leads from \<open>this\<close> to the copy and from every cell it renames to a new
  cell, which is the image of that cell (for \<open>this\<close>, the image without
  \<^verbatim>\<open>userData\<close>), so the copy is a structural clone, nested sequences included. The
  call leaves every cell of the old store as it was; every cell that can be reached from
  the copy is new; so writing any cell that can be reached from the copy (a field of the
  copy, an element of one of its sequences) leaves every cell of the old store, and with
  them every field of the original instance, as it was.
\<close>

theorem getWithOutUserData_fresh_image:
  assumes wf: "wf_store s" and inside: "this < length s" and obj: "s ! this = CObj kvs"
  shows "\<exists>s' copy M.
           getWithOutUserData_store (Suc (length s)) s this = Some (s', copy)
         \<and> (\<exists>kvs'. s' ! copy = CObj kvs' \<and> ''userData'' \<notin> set (map fst kvs'))
         \<and> map_of M this = Some copy \<and> inj_memo M
         \<and> (\<forall>a a'. map_of M a = Some a' \<longrightarrow>
               a < length s \<and> length s \<le> a' \<and> a' < length s'
               \<and> list_all (val_in_dom M) (cell_values (s ! a))
               \<and> s' ! a' = (if a = this then delete_userData (image_cell M (s ! a))
                            else image_cell M (s ! a)))
         \<and> (\<forall>b<length s. s' ! b = s ! b)
         \<and> (\<forall>a. reach s' copy a \<longrightarrow> length s \<le> a \<and> a < length s')
         \<and> (\<forall>a c b. reach s' copy a \<longrightarrow> b < length s \<longrightarrow> (s'[a := c]) ! b = s ! b)"
proof -
  let ?L = "length s"
  let ?s0 = "s @ [CArr []]" and ?m0 = "[(this, length s)]"
  have cpre0: "clone_pre ?L ?s0 ?m0" using clone_pre_start by (rule clone_pre_alloc)
  have spre0: "sim_pre s ?s0 ?m0" using sim_pre_start [OF wf] by (rule sim_pre_alloc)
  have "clone (Suc ?L) s [] (SRef this) \<noteq> None"
    using clone_pre_start src_ok_start [OF wf]
    by (rule clone_total) (simp_all add: inside unvisited_def)
  then obtain s1 M vs' where
    all: "clone_all (clone ?L) ?s0 ?m0 (cell_values (s ! this)) = Some (s1, M, vs')"
    using inside by (auto split: option.splits)
  let ?s' = "s1[?L := delete_userData (with_values (s ! this) vs')]"
  from clone_all_good [OF clone_good cpre0 all]
  have post: "clone_post ?L ?s0 ?m0 s1 M"
    and cp: "list_all2 (copied ?L (length s1)) (cell_values (s ! this)) vs'" by auto
  from post have len: "length ?s0 \<le> length s1" and pre1: "clone_pre ?L s1 M"
    and fr: "\<forall>b<?L. s1 ! b = ?s0 ! b" by (simp_all add: clone_post_def)
  have lt: "?L < length s1" using len by simp
  have run: "getWithOutUserData_store (Suc ?L) s this = Some (?s', ?L)"
    using inside all lt by (simp add: getWithOutUserData_store_def structuredClone_store_def)
  have cw: "cell_within ?L (length s1) (delete_userData (with_values (s ! this) vs'))"
    using cp by (intro delete_userData_within cell_within_with_values list_all2_copied_within)
  have "clone_pre ?L ?s' M"
    using pre1 _ lt cw by (rule clone_pre_write) simp
  then have fc: "fresh_closed ?L ?s'" by (simp add: clone_pre_def)
  have frame: "\<forall>b<?L. ?s' ! b = s ! b" using fr by (simp add: nth_append)
  have fresh: "\<forall>a. reach ?s' ?L a \<longrightarrow> ?L \<le> a \<and> a < length ?s'"
    using reach_fresh [OF _ fc, of ?L] lt by simp
  have indep: "\<forall>a c b. reach ?s' ?L a \<longrightarrow> b < ?L \<longrightarrow> (?s'[a := c]) ! b = s ! b"
  proof (intro allI impI)
    fix a c b assume r: "reach ?s' ?L a" and b: "b < ?L"
    from fresh r have "?L \<le> a" by blast
    then have "a \<noteq> b" using b by simp
    then have "(?s'[a := c]) ! b = ?s' ! b" by (rule nth_list_update_neq)
    then show "(?s'[a := c]) ! b = s ! b" using frame b by simp
  qed
  have srcw: "list_all (val_within 0 ?L) (cell_values (s ! this))"
    using wf inside by (simp add: wf_store_def list_all_length cell_within_def)
  from clone_all_sim [OF clone_sim spre0 srcw all]
  have spost: "sim_post s ?s0 ?m0 s1 M"
    and vs': "vs' = map (renamed M) (cell_values (s ! this))"
    and dom: "list_all (val_in_dom M) (cell_values (s ! this))" by auto
  from spost have ext: "memo_ext ?m0 M"
    and new: "\<forall>x x'. map_of M x = Some x' \<longrightarrow>
                map_of ?m0 x = Some x' \<or> length ?s0 \<le> x' \<and> x' < length s1"
    and inv: "\<forall>P. sim_inv s P ?m0 ?s0 \<longrightarrow> sim_inv s P M s1"
    and inj: "inj_memo ?m0 \<longrightarrow> inj_memo M"
    by (simp_all add: sim_post_def)
  have Mthis: "map_of M this = Some ?L" using ext by (simp add: memo_ext_def)
  have "inj_memo ?m0" unfolding inj_memo_def by (auto split: if_splits)
  with inj have injM: "inj_memo M" by blast
  have "sim_inv s {this} ?m0 ?s0" by (auto simp: sim_inv_def split: if_splits)
  with inv have sinv: "sim_inv s {this} M s1" by blast
  have top: "?s' ! ?L = delete_userData (image_cell M (s ! this))"
    using lt by (simp add: vs' image_cell_def)
  have iso: "\<forall>a a'. map_of M a = Some a' \<longrightarrow>
               a < ?L \<and> ?L \<le> a' \<and> a' < length ?s'
               \<and> list_all (val_in_dom M) (cell_values (s ! a))
               \<and> ?s' ! a' = (if a = this then delete_userData (image_cell M (s ! a))
                            else image_cell M (s ! a))"
  proof (intro allI impI)
    fix a a' assume m: "map_of M a = Some a'"
    show "a < ?L \<and> ?L \<le> a' \<and> a' < length ?s'
               \<and> list_all (val_in_dom M) (cell_values (s ! a))
               \<and> ?s' ! a' = (if a = this then delete_userData (image_cell M (s ! a))
                            else image_cell M (s ! a))"
    proof (cases "a = this")
      case True
      then have "a' = ?L" using m Mthis by simp
      then show ?thesis using True inside lt dom top by simp
    next
      case False
      with sinv m have sm: "sim s M s1 a a'" by (auto simp: sim_inv_def)
      from new m False have rng: "Suc ?L \<le> a' \<and> a' < length s1" by (auto split: if_splits)
      then have "?s' ! a' = s1 ! a'" by simp
      then show ?thesis using sm rng False by (simp add: sim_def)
    qed
  qed
  obtain kvs' where k: "delete_userData (with_values (s ! this) vs') = CObj kvs'"
    by (auto simp: obj)
  have c1: "?s' ! ?L = CObj kvs'" using lt k by simp
  have c2: "''userData'' \<notin> set (map fst kvs')" using k by (rule delete_userData_no_key)
  show ?thesis
  proof (intro exI conjI)
    show "getWithOutUserData_store (Suc ?L) s this = Some (?s', ?L)" by (rule run)
    show "?s' ! ?L = CObj kvs'" by (rule c1)
    show "''userData'' \<notin> set (map fst kvs')" by (rule c2)
    show "map_of M this = Some ?L" by (rule Mthis)
    show "inj_memo M" by (rule injM)
    show "\<forall>a a'. map_of M a = Some a' \<longrightarrow>
               a < ?L \<and> ?L \<le> a' \<and> a' < length ?s'
               \<and> list_all (val_in_dom M) (cell_values (s ! a))
               \<and> ?s' ! a' = (if a = this then delete_userData (image_cell M (s ! a))
                            else image_cell M (s ! a))" by (rule iso)
    show "\<forall>b<?L. ?s' ! b = s ! b" by (rule frame)
    show "\<forall>a. reach ?s' ?L a \<longrightarrow> ?L \<le> a \<and> a < length ?s'" by (rule fresh)
    show "\<forall>a c b. reach ?s' ?L a \<longrightarrow> b < ?L \<longrightarrow> (?s'[a := c]) ! b = s ! b" by (rule indep)
  qed
qed

theorem getWithOutUserData_fresh_image_witness:
  "wf_store example_store \<and> 0 < length example_store
   \<and> (\<exists>kvs. example_store ! 0 = CObj kvs)
   \<and> (\<exists>s' copy.
         getWithOutUserData_store (Suc (length example_store)) example_store 0 = Some (s', copy)
       \<and> (\<exists>kvs'. s' ! copy = CObj kvs' \<and> ''userData'' \<notin> set (map fst kvs'))
       \<and> (\<forall>a c b. reach s' copy a \<longrightarrow> b < length example_store \<longrightarrow>
              (s'[a := c]) ! b = example_store ! b))"
proof -
  have w: "wf_store example_store" by code_simp
  have i: "0 < length example_store" by code_simp
  have o: "example_store ! 0 =
      CObj [(''title'', SStr ''Zelda''), (''developers'', SRef 1), (''publishers'', SRef 1),
            (''userData'', SRef 2)]" by code_simp
  from getWithOutUserData_fresh_image [OF w i o] obtain s' copy where
    "getWithOutUserData_store (Suc (length example_store)) example_store 0 = Some (s', copy)"
    "\<exists>kvs'. s' ! copy = CObj kvs' \<and> ''userData'' \<notin> set (map fst kvs')"
    "\<forall>a c b. reach s' copy a \<longrightarrow> b < length example_store \<longrightarrow>
              (s'[a := c]) ! b = example_store ! b"
    by blast
  then show ?thesis using w i o by blast
qed

text \<open>
  On the example the copy is the cell 4; its two sequences are one new array, the cell 5.
\<close>

lemma getWithOutUserData_store_example:
  "getWithOutUserData_store 5 example_store 0 =
     Some ([CObj [(''title'', SStr ''Zelda''), (''developers'', SRef 1), (''publishers'', SRef 1),
                  (''userData'', SRef 2)],
            CArr [SStr ''Nintendo''],
            CObj [(''played'', SBool True), (''personalTags'', SRef 3)],
            CArr [SStr ''nes''],
            CObj [(''title'', SStr ''Zelda''), (''developers'', SRef 5), (''publishers'', SRef 5)],
            CArr [SStr ''Nintendo''],
            CObj [(''played'', SBool True), (''personalTags'', SRef 7)],
            CArr [SStr ''nes'']], 4)"
  by code_simp

end
